theory Spec2Isabelle
  imports Complex_Main "HOL-Library.AList"
begin

section \<open>Errors\<close>

text \<open>
  The exceptions that \<^verbatim>\<open>agent.py\<close> can raise, explicitly
  (\<^verbatim>\<open>FileNotFoundError\<close>) or through the Python and torch operations it calls.
\<close>

datatype error =
    FileNotFoundError string
  | KeyError string
  | ZeroDivisionError
  | IndexError
  | RuntimeError

section \<open>The estimator and the agent\<close>

text \<open>
  A serialized parameter mapping (\<^verbatim>\<open>state_dict\<close>, an ordered dictionary): parameter
  name to tensor, in insertion order. \<^verbatim>\<open>d[k]\<close> is \<open>map_of d k\<close>, \<^verbatim>\<open>d[k] = v\<close> is
  \<open>AList.update k v d\<close> and \<^verbatim>\<open>del d[k]\<close> is \<open>AList.delete k d\<close>. A tensor is kept as
  the list of its entries; reals stand for the floats.
\<close>

type_synonym state_dict = "(string \<times> real list) list"

text \<open>
  Modelled from the spec: the class \<^verbatim>\<open>DQN\<close> of \<^verbatim>\<open>components\<close> is not part of the
  sources. An estimator holds its named parameters, the noise its stochastic layers
  currently use, its training-mode flag and whether its parameters take gradients.
\<close>

record 'nz net =
  params :: state_dict
  noise :: 'nz
  training :: bool
  requires_grad :: bool

record ('nz, 'o) agent =
  model_file :: "string option"
  atoms :: nat
  V_min :: real
  V_max :: real
  support :: "real list"
  delta_z :: real
  batch_size :: nat
  multi_step :: nat \<comment> \<open>\<^verbatim>\<open>self.n\<close>\<close>
  discount :: real
  norm_clip :: real
  action_space :: nat
  online_net :: "'nz net"
  target_net :: "'nz net"
  optimiser :: 'o

section \<open>The support grid\<close>

text \<open>\<^verbatim>\<open>torch.linspace(start, end, steps)\<close>.\<close>

definition linspace :: "real \<Rightarrow> real \<Rightarrow> nat \<Rightarrow> real list" where
  "linspace a b steps =
     (if steps = 1 then [a]
      else map (\<lambda>i. a + real i * ((b - a) / (real steps - 1))) [0..<steps])"

section \<open>The projection step of learn\<close>

text \<open>\<^verbatim>\<open>Tz.clamp(min=V_min, max=V_max)\<close>: the lower bound first, then the upper one.\<close>

definition clamp :: "real \<Rightarrow> real \<Rightarrow> real \<Rightarrow> real" where
  "clamp lo hi x = min (max x lo) hi"

text \<open>
  One entry of \<^verbatim>\<open>Tz\<close> after the clamp, for a row with return \<open>r\<close> and nonterminal
  mask \<open>nt\<close>, at the support value \<open>z\<close>.
\<close>

definition Tz :: "('nz, 'o) agent \<Rightarrow> real \<Rightarrow> real \<Rightarrow> real \<Rightarrow> real" where
  "Tz ag r nt z = clamp (V_min ag) (V_max ag) (r + nt * (discount ag ^ multi_step ag) * z)"

text \<open>\<^verbatim>\<open>b = (Tz - V_min) / delta_z\<close>.\<close>

definition b_coord :: "('nz, 'o) agent \<Rightarrow> real \<Rightarrow> real \<Rightarrow> real \<Rightarrow> real" where
  "b_coord ag r nt z = (Tz ag r nt z - V_min ag) / delta_z ag"

text \<open>
  The neighbours after the two masked in-place updates. The second update reads the
  \<open>l\<close> that the first one has already changed.
\<close>

definition l_fix :: "real \<Rightarrow> int" where
  "l_fix b = (let l = \<lfloor>b\<rfloor>; u = \<lceil>b\<rceil> in if u > 0 \<and> l = u then l - 1 else l)"

definition u_fix :: "nat \<Rightarrow> real \<Rightarrow> int" where
  "u_fix k b = (let l = l_fix b; u = \<lceil>b\<rceil> in if l < int k - 1 \<and> l = u then u + 1 else u)"

text \<open>
  \<^verbatim>\<open>t.index_add_(0, index, source)\<close> on a flat tensor: the entries of \<open>source\<close> are added
  one after the other at their index; an index outside the tensor is an error.
\<close>

fun index_add :: "real list \<Rightarrow> (int \<times> real) list \<Rightarrow> error + real list" where
  "index_add m [] = Inr m"
| "index_add m ((i, v) # rest) =
     (if 0 \<le> i \<and> i < int (length m)
      then index_add (m[nat i := m ! nat i + v]) rest
      else Inl IndexError)"

text \<open>
  The flattened index and source tensors of the two accumulations:
  row \<open>k\<close> is shifted by \<open>offset k = k * atoms\<close>.
\<close>

definition row_bs :: "('nz, 'o) agent \<Rightarrow> real \<Rightarrow> real \<Rightarrow> real list" where
  "row_bs ag r nt = map (b_coord ag r nt) (support ag)"

definition lower_row :: "('nz, 'o) agent \<Rightarrow> nat \<Rightarrow> real list \<Rightarrow> real list \<Rightarrow> (int \<times> real) list" where
  "lower_row ag k bs ps =
     map (\<lambda>(b, p). (l_fix b + int (k * atoms ag),
                      p * (real_of_int (u_fix (atoms ag) b) - b))) (zip bs ps)"

definition upper_row :: "('nz, 'o) agent \<Rightarrow> nat \<Rightarrow> real list \<Rightarrow> real list \<Rightarrow> (int \<times> real) list" where
  "upper_row ag k bs ps =
     map (\<lambda>(b, p). (u_fix (atoms ag) b + int (k * atoms ag),
                      p * (b - real_of_int (l_fix b)))) (zip bs ps)"

definition contributions ::
  "(nat \<Rightarrow> real list \<Rightarrow> real list \<Rightarrow> (int \<times> real) list) \<Rightarrow>
   nat \<Rightarrow> real list list \<Rightarrow> real list list \<Rightarrow> (int \<times> real) list" where
  "contributions f bsz bss pss = concat (map (\<lambda>k. f k (bss ! k) (pss ! k)) [0..<bsz])"

text \<open>\<^verbatim>\<open>m.view(batch_size, atoms)\<close> of a flat tensor.\<close>

definition view_rows :: "nat \<Rightarrow> nat \<Rightarrow> real list \<Rightarrow> real list list" where
  "view_rows bsz k flat = map (\<lambda>j. take k (drop (j * k) flat)) [0..<bsz]"

text \<open>
  Lines 92 to 108 of \<^verbatim>\<open>learn\<close>. The tensors of a batch have \<open>batch_size\<close> rows and a
  distribution has \<open>atoms\<close> entries; torch refuses other shapes, here with
  \<open>RuntimeError\<close> (broadcasting of size-one dimensions is not modelled).
\<close>

definition project ::
  "('nz, 'o) agent \<Rightarrow> real list \<Rightarrow> real list \<Rightarrow> real list list \<Rightarrow> error + real list list" where
  "project ag rets nts pns_a =
     (if length rets = batch_size ag \<and> length nts = batch_size ag \<and>
         length pns_a = batch_size ag \<and> length (support ag) = atoms ag \<and>
         (\<forall>ps \<in> set pns_a. length ps = atoms ag)
      then
        let bss = map (\<lambda>(r, nt). row_bs ag r nt) (zip rets nts);
            m0 = replicate (batch_size ag * atoms ag) 0
        in (case index_add m0 (contributions (lower_row ag) (batch_size ag) bss pns_a) of
              Inl e \<Rightarrow> Inl e
            | Inr m1 \<Rightarrow>
               (case index_add m1 (contributions (upper_row ag) (batch_size ag) bss pns_a) of
                  Inl e \<Rightarrow> Inl e
                | Inr m2 \<Rightarrow> Inr (view_rows (batch_size ag) (atoms ag) m2)))
      else Inl RuntimeError)"

section \<open>Collaborators\<close>

text \<open>The tuple that \<^verbatim>\<open>mem.sample(batch_size)\<close> returns.\<close>

record 's batch =
  idxs :: "nat list"
  states :: "'s list"
  actions :: "nat list"
  returns :: "real list"
  next_states :: "'s list"
  nonterminals :: "real list"
  weights :: "real list"

text \<open>
  The operations of torch and of the estimator that \<^verbatim>\<open>learn\<close> and the constructor
  call, as parameters: the forward pass \<^verbatim>\<open>net(x, log)\<close> (shape batch, action, atom),
  the gradient of a scalar objective in the parameters (\<^verbatim>\<open>backward\<close>),
  \<^verbatim>\<open>clip_grad_norm_\<close>, one optimiser step, and the optimiser constructors.
\<close>

record ('s, 'nz, 'o) torch =
  forward :: "'nz net \<Rightarrow> 's list \<Rightarrow> bool \<Rightarrow> real list list list"
  backward :: "(state_dict \<Rightarrow> real) \<Rightarrow> state_dict \<Rightarrow> state_dict"
  clip_grad_norm :: "state_dict \<Rightarrow> real \<Rightarrow> state_dict"
  optimiser_step :: "'o \<Rightarrow> state_dict \<Rightarrow> state_dict \<Rightarrow> 'o \<times> state_dict"
  Adam :: "state_dict \<Rightarrow> real \<Rightarrow> real \<Rightarrow> 'o"
  AdamW :: "state_dict \<Rightarrow> real \<Rightarrow> real \<Rightarrow> 'o"

text \<open>
  The file system as the constructor sees it: \<^verbatim>\<open>Path.joinpath\<close> (with \<^verbatim>\<open>__str__\<close>),
  \<^verbatim>\<open>Path.is_file\<close> and \<^verbatim>\<open>torch.load\<close>.
\<close>

record files =
  joinpath :: "string \<Rightarrow> string \<Rightarrow> string"
  is_file :: "string \<Rightarrow> bool"
  torch_load :: "string \<Rightarrow> error + state_dict"

text \<open>The fields of \<^verbatim>\<open>args\<close> that the constructor reads.\<close>

record args =
  arg_atoms :: nat
  arg_V_min :: real
  arg_V_max :: real
  arg_batch_size :: nat
  arg_multi_step :: nat
  arg_discount :: real
  arg_norm_clip :: real
  arg_model :: "string option"
  arg_architecture :: string
  arg_learning_rate :: real
  arg_adam_eps :: real

section \<open>Estimator operations\<close>

text \<open>
  Modelled from the spec: \<^verbatim>\<open>DQN.reset_noise\<close> is not part of the sources. The
  noise-resampling hook replaces the noise by a fresh sample (an input here) and
  leaves the parameters alone.
\<close>

definition net_reset_noise :: "'nz net \<Rightarrow> 'nz \<Rightarrow> 'nz net" where
  "net_reset_noise net nz = net\<lparr>noise := nz\<rparr>"

text \<open>
  Modelled from the spec: the serialized state of an estimator is the mapping from
  parameter name to tensor.
\<close>

definition state_dict :: "'nz net \<Rightarrow> state_dict" where
  "state_dict net = params net"

text \<open>
  \<^verbatim>\<open>Module.load_state_dict\<close> is strict: the keys and the tensor sizes have to be
  those of the module, otherwise it raises \<^verbatim>\<open>RuntimeError\<close>. It copies every tensor
  into the module's parameter of that name.
\<close>

definition load_state_dict :: "'nz net \<Rightarrow> state_dict \<Rightarrow> error + 'nz net" where
  "load_state_dict net sd =
     (if set (map fst sd) = set (map fst (params net)) \<and>
         list_all (\<lambda>(k, v). map_option length (map_of sd k) = Some (length v)) (params net)
      then Inr (net\<lparr>params :=
                  map (\<lambda>(k, v). (k, case map_of sd k of Some w \<Rightarrow> w | None \<Rightarrow> v))
                    (params net)\<rparr>)
      else Inl RuntimeError)"

section \<open>Construction\<close>

definition legacy_keys :: "(string \<times> string) list" where
  "legacy_keys =
     [(''conv1.weight'', ''convs.0.weight''), (''conv1.bias'', ''convs.0.bias''),
      (''conv2.weight'', ''convs.2.weight''), (''conv2.bias'', ''convs.2.bias''),
      (''conv3.weight'', ''convs.4.weight''), (''conv3.bias'', ''convs.4.bias'')]"

text \<open>
  The loop of lines 35 to 39: \<^verbatim>\<open>state_dict[new_key] = state_dict[old_key]\<close> raises
  \<^verbatim>\<open>KeyError\<close> when the old key is missing; \<^verbatim>\<open>del state_dict[old_key]\<close> follows.
\<close>

fun remap_keys :: "(string \<times> string) list \<Rightarrow> state_dict \<Rightarrow> error + state_dict" where
  "remap_keys [] sd = Inr sd"
| "remap_keys ((old_key, new_key) # rest) sd =
     (case map_of sd old_key of
        None \<Rightarrow> Inl (KeyError old_key)
      | Some v \<Rightarrow> remap_keys rest (AList.delete old_key (AList.update new_key v sd)))"

text \<open>Lines 34 to 39: the mapping that is handed to \<^verbatim>\<open>load_state_dict\<close>.\<close>

definition remap_legacy :: "state_dict \<Rightarrow> error + state_dict" where
  "remap_legacy sd =
     (if ''conv1.weight'' \<in> set (map fst sd) then remap_keys legacy_keys sd else Inr sd)"

text \<open>Lines 31 to 43, for the resolved path \<open>file\<close>.\<close>

definition load_model :: "files \<Rightarrow> 'nz net \<Rightarrow> string \<Rightarrow> error + 'nz net" where
  "load_model fs net file =
     (if is_file fs file
      then (case torch_load fs file of
              Inl e \<Rightarrow> Inl e
            | Inr sd \<Rightarrow>
               (case remap_legacy sd of
                  Inl e \<Rightarrow> Inl e
                | Inr sd' \<Rightarrow> load_state_dict net sd'))
      else Inl (FileNotFoundError file))"

text \<open>\<^verbatim>\<open>update_target_net\<close>.\<close>

definition update_target_net :: "('nz, 'o) agent \<Rightarrow> error + ('nz, 'o) agent" where
  "update_target_net ag =
     (case load_state_dict (target_net ag) (state_dict (online_net ag)) of
        Inl e \<Rightarrow> Inl e
      | Inr t \<Rightarrow> Inr (ag\<lparr>target_net := t\<rparr>))"

text \<open>
  \<^verbatim>\<open>Agent.__init__\<close>. The two freshly built estimators \<^verbatim>\<open>DQN(args, action_space)\<close>
  (their random initialisation) are inputs. The division of line 19 raises
  \<^verbatim>\<open>ZeroDivisionError\<close> for a single atom. \<^verbatim>\<open>if args.model\<close> is false for \<^verbatim>\<open>None\<close>
  and for the empty string. The optimiser is built from the online parameters, which
  the synchronisation of line 47 does not touch.
\<close>

definition Agent_init ::
  "('s, 'nz, 'o) torch \<Rightarrow> files \<Rightarrow> args \<Rightarrow> string \<Rightarrow> nat \<Rightarrow> 'nz net \<Rightarrow> 'nz net \<Rightarrow>
   error + ('nz, 'o) agent" where
  "Agent_init T fs a results_dir env_action_space fresh_online fresh_target =
     (if arg_atoms a = 1 then Inl ZeroDivisionError
      else
        let file = (case arg_model a of
                      None \<Rightarrow> None
                    | Some name \<Rightarrow>
                        if name = [] then None else Some (joinpath fs results_dir name));
            loaded = (case file of
                        None \<Rightarrow> Inr fresh_online
                      | Some f \<Rightarrow> load_model fs fresh_online f)
        in (case loaded of
              Inl e \<Rightarrow> Inl e
            | Inr online \<Rightarrow>
               let ag = \<lparr> model_file = file,
                          atoms = arg_atoms a,
                          V_min = arg_V_min a,
                          V_max = arg_V_max a,
                          support = linspace (arg_V_min a) (arg_V_max a) (arg_atoms a),
                          delta_z = (arg_V_max a - arg_V_min a) / (real (arg_atoms a) - 1),
                          batch_size = arg_batch_size a,
                          multi_step = arg_multi_step a,
                          discount = arg_discount a,
                          norm_clip = arg_norm_clip a,
                          action_space = env_action_space,
                          online_net = online\<lparr>training := True\<rparr>,
                          target_net = fresh_target,
                          optimiser =
                            (if arg_architecture a \<in> {''canonical'', ''data-efficient''}
                             then Adam T (params online) (arg_learning_rate a) (arg_adam_eps a)
                             else AdamW T (params online) (arg_learning_rate a) (arg_adam_eps a)) \<rparr>
               in (case update_target_net ag of
                     Inl e \<Rightarrow> Inl e
                   | Inr ag' \<Rightarrow>
                      Inr (ag'\<lparr>target_net :=
                                 (target_net ag')\<lparr>training := True, requires_grad := False\<rparr>\<rparr>))))"

text \<open>\<^verbatim>\<open>reset_noise\<close>, \<^verbatim>\<open>train\<close> and \<^verbatim>\<open>eval\<close> of the agent: the online estimator only.\<close>

definition reset_noise :: "('nz, 'o) agent \<Rightarrow> 'nz \<Rightarrow> ('nz, 'o) agent" where
  "reset_noise ag nz = ag\<lparr>online_net := net_reset_noise (online_net ag) nz\<rparr>"

definition agent_train :: "('nz, 'o) agent \<Rightarrow> ('nz, 'o) agent" where
  "agent_train ag = ag\<lparr>online_net := (online_net ag)\<lparr>training := True\<rparr>\<rparr>"

definition agent_eval :: "('nz, 'o) agent \<Rightarrow> ('nz, 'o) agent" where
  "agent_eval ag = ag\<lparr>online_net := (online_net ag)\<lparr>training := False\<rparr>\<rparr>"

section \<open>Double-Q selection\<close>

text \<open>\<^verbatim>\<open>argmax\<close> along the action dimension: the first index of the largest value.\<close>

fun argmax_from :: "nat \<Rightarrow> real \<Rightarrow> nat \<Rightarrow> real list \<Rightarrow> nat" where
  "argmax_from best bv i [] = best"
| "argmax_from best bv i (x # xs) =
     (if bv < x then argmax_from i x (Suc i) xs else argmax_from best bv (Suc i) xs)"

definition argmax :: "real list \<Rightarrow> error + nat" where
  "argmax xs = (case xs of [] \<Rightarrow> Inl IndexError | x # rest \<Rightarrow> Inr (argmax_from 0 x 1 rest))"

fun argmax_rows :: "real list list \<Rightarrow> error + nat list" where
  "argmax_rows [] = Inr []"
| "argmax_rows (q # qs) =
     (case argmax q of
        Inl e \<Rightarrow> Inl e
      | Inr a \<Rightarrow> (case argmax_rows qs of Inl e \<Rightarrow> Inl e | Inr as \<Rightarrow> Inr (a # as)))"

text \<open>
  \<^verbatim>\<open>(support.expand_as(pns) * pns).sum(2)\<close> for one row of the batch: the expected
  value of every action.
\<close>

definition expected_values :: "real list \<Rightarrow> real list list \<Rightarrow> real list" where
  "expected_values z acts = map (\<lambda>p. sum_list (map2 (*) z p)) acts"

text \<open>
  \<^verbatim>\<open>t[range(batch_size), idx]\<close>: one entry of every row; an index outside its row
  is an error.
\<close>

definition gather :: "nat \<Rightarrow> 'a list list \<Rightarrow> nat list \<Rightarrow> 'a list" where
  "gather bsz t idx = map (\<lambda>k. t ! k ! (idx ! k)) [0..<bsz]"

definition index_rows :: "nat \<Rightarrow> 'a list list \<Rightarrow> nat list \<Rightarrow> error + 'a list" where
  "index_rows bsz t idx =
     (if bsz \<le> length t \<and> length idx = bsz \<and> (\<forall>k < bsz. idx ! k < length (t ! k))
      then Inr (gather bsz t idx)
      else Inl IndexError)"

text \<open>
  Lines 81 to 88 of \<^verbatim>\<open>learn\<close>: the chosen actions, the target estimator after its
  noise was resampled, and its distributions at the chosen actions.
\<close>

definition double_q ::
  "('s, 'nz, 'o) torch \<Rightarrow> ('nz, 'o) agent \<Rightarrow> 's list \<Rightarrow> 'nz \<Rightarrow>
   error + (nat list \<times> 'nz net \<times> real list list)" where
  "double_q T ag nxt nz =
     (let pns = forward T (online_net ag) nxt False
      in if \<forall>acts \<in> set pns. \<forall>p \<in> set acts. length p = length (support ag)
         then (case argmax_rows (map (expected_values (support ag)) pns) of
                 Inl e \<Rightarrow> Inl e
               | Inr argmax_indices \<Rightarrow>
                  let tgt = net_reset_noise (target_net ag) nz;
                      pns_t = forward T tgt nxt False
                  in (case index_rows (batch_size ag) pns_t argmax_indices of
                        Inl e \<Rightarrow> Inl e
                      | Inr pns_a \<Rightarrow> Inr (argmax_indices, tgt, pns_a)))
         else Inl RuntimeError)"

section \<open>Loss, optimisation step and priority feedback\<close>

text \<open>\<^verbatim>\<open>-torch.sum(m * log_ps_a, 1)\<close>.\<close>

definition cross_entropy :: "real list list \<Rightarrow> real list list \<Rightarrow> real list" where
  "cross_entropy m log_ps_a = map2 (\<lambda>mr lr. - sum_list (map2 (*) mr lr)) m log_ps_a"

text \<open>\<^verbatim>\<open>t.mean()\<close> of a vector.\<close>

definition tensor_mean :: "real list \<Rightarrow> real" where
  "tensor_mean xs = sum_list xs / real (length xs)"

text \<open>
  \<^verbatim>\<open>(weights * loss).mean()\<close> as a function of the online parameters: the target
  \<open>m\<close> was computed without gradients and is a constant of it.
\<close>

definition objective ::
  "('s, 'nz, 'o) torch \<Rightarrow> ('nz, 'o) agent \<Rightarrow> 's batch \<Rightarrow> real list list \<Rightarrow> state_dict \<Rightarrow> real" where
  "objective T ag bt m \<theta> =
     tensor_mean (map2 (*) (weights bt)
       (cross_entropy m
          (gather (batch_size ag)
             (forward T ((online_net ag)\<lparr>params := \<theta>\<rparr>) (states bt) True) (actions bt))))"

text \<open>
  What one call of \<^verbatim>\<open>learn\<close> leaves behind: the agent, the calls of
  \<^verbatim>\<open>mem.update_priorities\<close> in order, and the values of the local variables
  \<^verbatim>\<open>argmax_indices_ns\<close>, \<^verbatim>\<open>pns_a\<close>, \<^verbatim>\<open>m\<close>, \<^verbatim>\<open>loss\<close> and of the scalar that
  \<^verbatim>\<open>backward\<close> is called on.
\<close>

record ('nz, 'o) learned =
  learn_agent :: "('nz, 'o) agent"
  learn_update_priorities :: "(nat list \<times> real list) list"
  learn_argmax_indices_ns :: "nat list"
  learn_pns_a :: "real list list"
  learn_m :: "real list list"
  learn_loss :: "real list"
  learn_objective :: real

text \<open>
  \<^verbatim>\<open>learn\<close>, for the batch \<open>bt\<close> that \<^verbatim>\<open>mem.sample\<close> returned and the noise \<open>nz\<close>
  that the target estimator draws. \<^verbatim>\<open>zero_grad\<close> has no counterpart: the gradient
  is a value here.
\<close>

definition learn ::
  "('s, 'nz, 'o) torch \<Rightarrow> ('nz, 'o) agent \<Rightarrow> 's batch \<Rightarrow> 'nz \<Rightarrow> error + ('nz, 'o) learned" where
  "learn T ag bt nz =
     (let log_ps = forward T (online_net ag) (states bt) True
      in case index_rows (batch_size ag) log_ps (actions bt) of
           Inl e \<Rightarrow> Inl e
         | Inr log_ps_a \<Rightarrow>
            (case double_q T ag (next_states bt) nz of
               Inl e \<Rightarrow> Inl e
             | Inr (argmax_indices, tgt, pns_a) \<Rightarrow>
                (case project ag (returns bt) (nonterminals bt) pns_a of
                   Inl e \<Rightarrow> Inl e
                 | Inr m \<Rightarrow>
                    if (\<forall>lp \<in> set log_ps_a. length lp = atoms ag) \<and>
                       length (weights bt) = batch_size ag
                    then
                      let loss = cross_entropy m log_ps_a;
                          \<theta> = params (online_net ag);
                          grads = backward T (objective T ag bt m) \<theta>;
                          clipped = clip_grad_norm T grads (norm_clip ag);
                          (opt, \<theta>') = optimiser_step T (optimiser ag) \<theta> clipped
                      in Inr \<lparr> learn_agent =
                                 ag\<lparr>online_net := (online_net ag)\<lparr>params := \<theta>'\<rparr>,
                                    target_net := tgt,
                                    optimiser := opt\<rparr>,
                               learn_update_priorities = [(idxs bt, loss)],
                               learn_argmax_indices_ns = argmax_indices,
                               learn_pns_a = pns_a,
                               learn_m = m,
                               learn_loss = loss,
                               learn_objective = objective T ag bt m \<theta> \<rparr>
                    else Inl RuntimeError)))"

section \<open>Notions used in the statements\<close>

text \<open>The sum of the sources that an \<^verbatim>\<open>index_add_\<close> adds at index \<open>j\<close>.\<close>

definition added_at :: "int \<Rightarrow> (int \<times> real) list \<Rightarrow> real" where
  "added_at j ivs = sum_list (map snd (filter (\<lambda>iv. fst iv = j) ivs))"

text \<open>The support grid as lines 18 and 19 of the constructor set it up.\<close>

definition grid_ok :: "('nz, 'o) agent \<Rightarrow> bool" where
  "grid_ok ag \<longleftrightarrow>
     support ag = linspace (V_min ag) (V_max ag) (atoms ag) \<and>
     delta_z ag = (V_max ag - V_min ag) / (real (atoms ag) - 1)"

section \<open>Example data\<close>

text \<open>
  A small estimator for concrete runs: its parameter \<open>dist\<close> holds the distributions
  of its two actions over three atoms, whatever the state; the log flag subtracts one.
\<close>

definition example_net :: "real list \<Rightarrow> unit net" where
  "example_net w = \<lparr> params = [(''dist'', w)], noise = (), training = True, requires_grad = True \<rparr>"

definition example_forward :: "unit net \<Rightarrow> nat list \<Rightarrow> bool \<Rightarrow> real list list list" where
  "example_forward net xs lg =
     map (\<lambda>x. case map_of (params net) ''dist'' of
                 Some [a, b, c, d, e, f] \<Rightarrow>
                   if lg then [[a - 1, b - 1, c - 1], [d - 1, e - 1, f - 1]]
                   else [[a, b, c], [d, e, f]]
               | _ \<Rightarrow> []) xs"

definition example_torch :: "(nat, unit, nat) torch" where
  "example_torch =
     \<lparr> forward = example_forward,
       backward = (\<lambda>f \<theta>. \<theta>),
       clip_grad_norm = (\<lambda>g c. g),
       optimiser_step = (\<lambda>opt \<theta> g. (Suc opt, \<theta>)),
       Adam = (\<lambda>\<theta> lr eps. 0),
       AdamW = (\<lambda>\<theta> lr eps. 0) \<rparr>"

definition example_agent :: "nat \<Rightarrow> real \<Rightarrow> real \<Rightarrow> nat \<Rightarrow> (unit, nat) agent" where
  "example_agent k lo hi bsz =
     \<lparr> model_file = None, atoms = k, V_min = lo, V_max = hi,
       support = linspace lo hi k, delta_z = (hi - lo) / (real k - 1),
       batch_size = bsz, multi_step = 1, discount = 1 / 2, norm_clip = 10,
       action_space = 2,
       online_net = example_net [0, 0, 1, 1, 0, 0],
       target_net = (example_net [1 / 5, 1 / 2, 3 / 10, 3 / 5, 3 / 10, 1 / 10])\<lparr>requires_grad := False\<rparr>,
       optimiser = 0 \<rparr>"

text \<open>A checkpoint with the legacy names, and a results directory holding it.\<close>

definition example_state_dict :: state_dict where
  "example_state_dict =
     [(''conv1.weight'', [1]), (''conv1.bias'', [2]),
      (''conv2.weight'', [3]), (''conv2.bias'', [4]),
      (''conv3.weight'', [5]), (''conv3.bias'', [6])]"

definition example_files :: files where
  "example_files =
     \<lparr> joinpath = (\<lambda>dir name. dir @ ''/'' @ name),
       is_file = (\<lambda>p. p = ''results/legacy.pth''),
       torch_load = (\<lambda>p. Inr example_state_dict) \<rparr>"

definition example_args :: "string option \<Rightarrow> args" where
  "example_args mo =
     \<lparr> arg_atoms = 3, arg_V_min = -1, arg_V_max = 1, arg_batch_size = 1, arg_multi_step = 1,
       arg_discount = 1 / 2, arg_norm_clip = 10, arg_model = mo,
       arg_architecture = ''canonical'', arg_learning_rate = 1 / 10, arg_adam_eps = 1 / 100 \<rparr>"

text \<open>A batch of one transition, and what \<^verbatim>\<open>learn\<close> leaves behind on it.\<close>

definition example_batch :: "nat batch" where
  "example_batch =
     \<lparr> idxs = [7], states = [0], actions = [1], returns = [3 / 10], next_states = [1],
       nonterminals = [1], weights = [2] \<rparr>"

definition example_learned :: "(unit, nat) learned" where
  "example_learned =
     \<lparr> learn_agent = (example_agent 3 (-1) 1 1)\<lparr>optimiser := 1\<rparr>,
       learn_update_priorities = [([7], [24 / 25])],
       learn_argmax_indices_ns = [0],
       learn_pns_a = [[1 / 5, 1 / 2, 3 / 10]],
       learn_m = [[1 / 25, 57 / 100, 39 / 100]],
       learn_loss = [24 / 25],
       learn_objective = 48 / 25 \<rparr>"

section \<open>Accumulation with \<^verbatim>\<open>index_add_\<close>\<close>

lemma added_at_Nil [simp]: "added_at j [] = 0"
  by (simp add: added_at_def)

lemma added_at_Cons [simp]: "added_at j ((i, v) # ivs) = (if i = j then v else 0) + added_at j ivs"
  by (simp add: added_at_def)

lemma index_add_ok:
  "\<forall>iv \<in> set ivs. 0 \<le> fst iv \<and> fst iv < int (length m) \<Longrightarrow>
   \<exists>m'. index_add m ivs = Inr m' \<and> length m' = length m \<and>
        (\<forall>j < length m. m' ! j = m ! j + added_at (int j) ivs)"
proof (induction ivs arbitrary: m)
  case Nil
  then show ?case by simp
next
  case (Cons iv ivs)
  obtain i v where iv: "iv = (i, v)" by (cases iv)
  from Cons.prems iv have ir: "0 \<le> i" "i < int (length m)" by auto
  let ?m1 = "m[nat i := m ! nat i + v]"
  have "\<forall>iv \<in> set ivs. 0 \<le> fst iv \<and> fst iv < int (length ?m1)"
    using Cons.prems by simp
  from Cons.IH [OF this] obtain m' where m': "index_add ?m1 ivs = Inr m'"
    "length m' = length m" "\<forall>j < length m. m' ! j = ?m1 ! j + added_at (int j) ivs"
    by auto
  have "\<forall>j < length m. m' ! j = m ! j + added_at (int j) (iv # ivs)"
  proof (intro allI impI)
    fix j assume j: "j < length m"
    show "m' ! j = m ! j + added_at (int j) (iv # ivs)"
    proof (cases "nat i = j")
      case True
      then have "i = int j" using ir by simp
      then show ?thesis using m'(3) j iv True by simp
    next
      case False
      then have "i \<noteq> int j" by auto
      then show ?thesis using m'(3) j iv False by simp
    qed
  qed
  then show ?case using m' ir iv by simp
qed

lemma row_disjoint:
  assumes "int (k * a) \<le> i" "i < int (k * a + a)" "int (k' * a) \<le> i" "i < int (k' * a + a)"
  shows "k = k'"
proof (rule ccontr)
  assume ne: "k \<noteq> k'"
  have *: "\<And>x y. x < y \<Longrightarrow> int (x * a) \<le> i \<Longrightarrow> i < int (x * a + a) \<Longrightarrow> int (y * a) \<le> i \<Longrightarrow> False"
  proof -
    fix x y :: nat assume "x < y" and h: "int (x * a) \<le> i" "i < int (x * a + a)" "int (y * a) \<le> i"
    then have "Suc x \<le> y" by simp
    then have "Suc x * a \<le> y * a" by (rule mult_le_mono1)
    then have "x * a + a \<le> y * a" by simp
    then have "int (x * a + a) \<le> int (y * a)" by (rule of_nat_mono)
    with h show False by linarith
  qed
  from ne have "k < k' \<or> k' < k" by arith
  then show False using * assms by blast
qed

lemma filter_concat_rows:
  assumes rows: "\<forall>k' < B. \<forall>iv \<in> set (g k'). int (k' * a) \<le> fst iv \<and> fst iv < int (k' * a + a)"
    and P: "\<forall>i. P i \<longrightarrow> int (k * a) \<le> i \<and> i < int (k * a + a)"
  shows "filter (\<lambda>iv. P (fst iv)) (concat (map g [0..<B])) =
         (if k < B then filter (\<lambda>iv. P (fst iv)) (g k) else [])"
  using rows
proof (induction B)
  case 0
  then show ?case by simp
next
  case (Suc B)
  then have IH: "filter (\<lambda>iv. P (fst iv)) (concat (map g [0..<B])) =
         (if k < B then filter (\<lambda>iv. P (fst iv)) (g k) else [])" by simp
  have last: "k \<noteq> B \<Longrightarrow> filter (\<lambda>iv. P (fst iv)) (g B) = []"
  proof -
    assume ne: "k \<noteq> B"
    have "\<forall>iv \<in> set (g B). \<not> P (fst iv)"
    proof
      fix iv assume "iv \<in> set (g B)"
      then have r: "int (B * a) \<le> fst iv" "fst iv < int (B * a + a)" using Suc.prems by auto
      show "\<not> P (fst iv)"
      proof
        assume "P (fst iv)"
        then have "int (k * a) \<le> fst iv" "fst iv < int (k * a + a)" using P by auto
        with r have "k = B" using row_disjoint by blast
        with ne show False by simp
      qed
    qed
    then show ?thesis by (simp add: filter_empty_conv)
  qed
  show ?case
  proof (cases "k = B")
    case True
    then show ?thesis using IH by simp
  next
    case False
    then show ?thesis using IH last by (simp add: less_Suc_eq)
  qed
qed

lemma added_at_concat_rows:
  assumes "\<forall>k' < B. \<forall>iv \<in> set (g k'). int (k' * a) \<le> fst iv \<and> fst iv < int (k' * a + a)"
    and "k < B" "j < a"
  shows "added_at (int (k * a + j)) (concat (map g [0..<B])) = added_at (int (k * a + j)) (g k)"
proof -
  have "\<forall>i. i = int (k * a + j) \<longrightarrow> int (k * a) \<le> i \<and> i < int (k * a + a)"
    using assms(3) by simp
  from filter_concat_rows [OF assms(1) this] assms(2) show ?thesis
    by (simp add: added_at_def)
qed

lemma sum_added_at_row:
  "\<forall>iv \<in> set ivs. int c \<le> fst iv \<and> fst iv < int (c + a) \<Longrightarrow>
   (\<Sum>j < a. added_at (int (c + j)) ivs) = sum_list (map snd ivs)"
proof (induction ivs)
  case Nil
  then show ?case by simp
next
  case (Cons iv ivs)
  obtain i v where iv: "iv = (i, v)" by (cases iv)
  from Cons.prems iv have ir: "int c \<le> i" "i < int (c + a)" by auto
  define j0 where "j0 = nat i - c"
  have j0: "j0 < a" "i = int (c + j0)" using ir by (auto simp: j0_def)
  have "(\<Sum>j < a. if i = int (c + j) then v else 0) = (\<Sum>j < a. if j = j0 then v else 0)"
    by (rule sum.cong) (auto simp: j0)
  also have "\<dots> = v" using j0(1) by simp
  finally have one: "(\<Sum>j < a. if i = int (c + j) then v else 0) = v" .
  have "(\<Sum>j < a. added_at (int (c + j)) (iv # ivs)) =
        (\<Sum>j < a. if i = int (c + j) then v else 0) + (\<Sum>j < a. added_at (int (c + j)) ivs)"
    by (simp add: iv sum.distrib)
  then show ?case using one Cons iv by simp
qed

lemma added_at_nonneg: "\<forall>iv \<in> set ivs. 0 \<le> snd iv \<Longrightarrow> 0 \<le> added_at j ivs"
  by (induction ivs) (auto simp: added_at_def)

section \<open>The neighbours of a grid coordinate\<close>

lemma u_fix_minus_l_fix: "2 \<le> k \<Longrightarrow> u_fix k b - l_fix b = 1"
  unfolding u_fix_def l_fix_def Let_def
  by (auto simp: ceiling_altdef split: if_splits)

lemma l_fix_le: "real_of_int (l_fix b) \<le> b"
  unfolding l_fix_def Let_def by (auto split: if_splits)

lemma u_fix_ge: "b \<le> real_of_int (u_fix k b)"
  unfolding u_fix_def l_fix_def Let_def by (auto split: if_splits) linarith+

lemma l_fix_nonneg: "0 \<le> b \<Longrightarrow> 0 \<le> l_fix b"
  unfolding l_fix_def Let_def by (auto split: if_splits) 

lemma u_fix_le:
  assumes "2 \<le> k" "b \<le> real k - 1"
  shows "u_fix k b \<le> int k - 1"
proof -
  have "b \<le> real_of_int (int k - 1)" using assms(2) by simp
  then have c: "\<lceil>b\<rceil> \<le> int k - 1" by (simp only: ceiling_le_iff)
  show ?thesis
    unfolding u_fix_def l_fix_def Let_def using c assms(1)
    by (auto split: if_splits)
qed

lemma l_fix_less_u_fix_bounds:
  assumes "2 \<le> k" "0 \<le> b" "b \<le> real k - 1"
  shows "0 \<le> l_fix b \<and> l_fix b < int k \<and> 0 \<le> u_fix k b \<and> u_fix k b < int k"
  using u_fix_minus_l_fix [OF assms(1), of b] l_fix_nonneg [OF assms(2)] u_fix_le [OF assms(1,3)]
  by linarith

lemma b_coord_range:
  assumes "grid_ok ag" "2 \<le> atoms ag" "V_min ag < V_max ag"
  shows "0 \<le> b_coord ag r nt z \<and> b_coord ag r nt z \<le> real (atoms ag) - 1"
proof -
  have dz: "delta_z ag = (V_max ag - V_min ag) / (real (atoms ag) - 1)"
    using assms(1) by (simp add: grid_ok_def)
  have a1: "0 < real (atoms ag) - 1" using assms(2) by simp
  then have dzpos: "0 < delta_z ag" using assms(3) dz by simp
  have t: "V_min ag \<le> Tz ag r nt z" "Tz ag r nt z \<le> V_max ag"
    using assms(3) by (auto simp: Tz_def clamp_def)
  have lo: "0 \<le> b_coord ag r nt z" using t(1) dzpos by (simp add: b_coord_def)
  have "Tz ag r nt z - V_min ag \<le> (real (atoms ag) - 1) * delta_z ag"
    using t(2) a1 dz by simp
  then have "b_coord ag r nt z \<le> real (atoms ag) - 1"
    using dzpos by (simp add: b_coord_def pos_divide_le_eq)
  with lo show ?thesis by simp
qed

section \<open>The entries of the projected target\<close>

lemma length_linspace [simp]: "length (linspace a b k) = k"
  by (simp add: linspace_def)

lemma row_bs_range:
  assumes "grid_ok ag" "2 \<le> atoms ag" "V_min ag < V_max ag"
  shows "\<forall>b \<in> set (row_bs ag r nt). 0 \<le> b \<and> b \<le> real (atoms ag) - 1"
  using b_coord_range [OF assms] by (auto simp: row_bs_def)

lemma lower_row_range:
  assumes "2 \<le> atoms ag" "\<forall>b \<in> set bs. 0 \<le> b \<and> b \<le> real (atoms ag) - 1"
  shows "\<forall>iv \<in> set (lower_row ag k bs ps).
           int (k * atoms ag) \<le> fst iv \<and> fst iv < int (k * atoms ag + atoms ag)"
proof
  fix iv assume "iv \<in> set (lower_row ag k bs ps)"
  then obtain b p where bp: "(b, p) \<in> set (zip bs ps)" "fst iv = l_fix b + int (k * atoms ag)"
    by (auto simp: lower_row_def)
  then have "b \<in> set bs" by (auto dest: set_zip_leftD)
  then have "0 \<le> b" "b \<le> real (atoms ag) - 1" using assms(2) by auto
  from l_fix_less_u_fix_bounds [OF assms(1) this] bp(2)
  show "int (k * atoms ag) \<le> fst iv \<and> fst iv < int (k * atoms ag + atoms ag)" by simp
qed

lemma upper_row_range:
  assumes "2 \<le> atoms ag" "\<forall>b \<in> set bs. 0 \<le> b \<and> b \<le> real (atoms ag) - 1"
  shows "\<forall>iv \<in> set (upper_row ag k bs ps).
           int (k * atoms ag) \<le> fst iv \<and> fst iv < int (k * atoms ag + atoms ag)"
proof
  fix iv assume "iv \<in> set (upper_row ag k bs ps)"
  then obtain b p where bp: "(b, p) \<in> set (zip bs ps)"
      "fst iv = u_fix (atoms ag) b + int (k * atoms ag)"
    by (auto simp: upper_row_def)
  then have "b \<in> set bs" by (auto dest: set_zip_leftD)
  then have "0 \<le> b" "b \<le> real (atoms ag) - 1" using assms(2) by auto
  from l_fix_less_u_fix_bounds [OF assms(1) this] bp(2)
  show "int (k * atoms ag) \<le> fst iv \<and> fst iv < int (k * atoms ag + atoms ag)" by simp
qed

lemma contributions_in_tensor:
  assumes "\<forall>k < B. \<forall>iv \<in> set (f k (bss ! k) (pss ! k)).
             int (k * a) \<le> fst iv \<and> fst iv < int (k * a + a)"
  shows "\<forall>iv \<in> set (contributions f B bss pss). 0 \<le> fst iv \<and> fst iv < int (B * a)"
proof
  fix iv assume "iv \<in> set (contributions f B bss pss)"
  then obtain k where k: "k < B" "iv \<in> set (f k (bss ! k) (pss ! k))"
    by (auto simp: contributions_def)
  then have r: "int (k * a) \<le> fst iv" "fst iv < int (k * a + a)" using assms by auto
  from k(1) have "Suc k \<le> B" by simp
  then have "Suc k * a \<le> B * a" by (rule mult_le_mono1)
  then have "k * a + a \<le> B * a" by simp
  then have "int (k * a + a) \<le> int (B * a)" by (rule of_nat_mono)
  with r show "0 \<le> fst iv \<and> fst iv < int (B * a)" by linarith
qed

lemma view_rows_nth:
  assumes "length m = B * a" "k < B"
  shows "view_rows B a m ! k = take a (drop (k * a) m)"
    and "length (view_rows B a m ! k) = a"
    and "k * a + a \<le> length m"
proof -
  from assms(2) have "Suc k \<le> B" by simp
  then have "Suc k * a \<le> B * a" by (rule mult_le_mono1)
  then show le: "k * a + a \<le> length m" using assms(1) by simp
  show eq: "view_rows B a m ! k = take a (drop (k * a) m)"
    using assms(2) by (simp add: view_rows_def)
  show "length (view_rows B a m ! k) = a" using le eq by simp
qed

lemma project_entries:
  assumes grid: "grid_ok ag" and a2: "2 \<le> atoms ag" and vv: "V_min ag < V_max ag"
    and shape: "length rets = batch_size ag" "length nts = batch_size ag"
      "length pns_a = batch_size ag" "\<forall>ps \<in> set pns_a. length ps = atoms ag"
  shows "\<exists>m. project ag rets nts pns_a = Inr m \<and> length m = batch_size ag \<and>
           (\<forall>k < batch_size ag. length (m ! k) = atoms ag \<and>
              (\<forall>j < atoms ag. m ! k ! j =
                 added_at (int (k * atoms ag + j))
                   (lower_row ag k (row_bs ag (rets ! k) (nts ! k)) (pns_a ! k)) +
                 added_at (int (k * atoms ag + j))
                   (upper_row ag k (row_bs ag (rets ! k) (nts ! k)) (pns_a ! k))))"
proof -
  define B where "B = batch_size ag"
  define a where "a = atoms ag"
  define bss where "bss = map (\<lambda>(r, nt). row_bs ag r nt) (zip rets nts)"
  define m0 :: "real list" where "m0 = replicate (B * a) 0"
  define gl where "gl = (\<lambda>k. lower_row ag k (bss ! k) (pns_a ! k))"
  define gu where "gu = (\<lambda>k. upper_row ag k (bss ! k) (pns_a ! k))"
  have bssk: "\<And>k. k < B \<Longrightarrow> bss ! k = row_bs ag (rets ! k) (nts ! k)"
    using shape(1,2) by (simp add: bss_def B_def)
  have rl: "\<forall>k < B. \<forall>iv \<in> set (gl k). int (k * a) \<le> fst iv \<and> fst iv < int (k * a + a)"
    unfolding gl_def a_def
    using lower_row_range [OF a2 row_bs_range [OF grid a2 vv]] bssk by simp
  have ru: "\<forall>k < B. \<forall>iv \<in> set (gu k). int (k * a) \<le> fst iv \<and> fst iv < int (k * a + a)"
    unfolding gu_def a_def
    using upper_row_range [OF a2 row_bs_range [OF grid a2 vv]] bssk by simp
  have cl: "contributions (lower_row ag) B bss pns_a = concat (map gl [0..<B])"
    and cu: "contributions (upper_row ag) B bss pns_a = concat (map gu [0..<B])"
    by (simp_all add: contributions_def gl_def gu_def)
  have "\<forall>iv \<in> set (contributions (lower_row ag) B bss pns_a). 0 \<le> fst iv \<and> fst iv < int (length m0)"
    using contributions_in_tensor [of B "lower_row ag" bss pns_a a] rl
    by (simp add: gl_def m0_def)
  from index_add_ok [OF this] obtain m1 where m1:
    "index_add m0 (contributions (lower_row ag) B bss pns_a) = Inr m1" "length m1 = B * a"
    "\<forall>j < B * a. m1 ! j = added_at (int j) (concat (map gl [0..<B]))"
    by (auto simp: m0_def cl)
  have "\<forall>iv \<in> set (contributions (upper_row ag) B bss pns_a). 0 \<le> fst iv \<and> fst iv < int (length m1)"
    using contributions_in_tensor [of B "upper_row ag" bss pns_a a] ru
    by (simp add: gu_def m1(2))
  from index_add_ok [OF this] obtain m2 where m2:
    "index_add m1 (contributions (upper_row ag) B bss pns_a) = Inr m2" "length m2 = B * a"
    "\<forall>j < B * a. m2 ! j = m1 ! j + added_at (int j) (concat (map gu [0..<B]))"
    by (auto simp: m1(2) cu)
  have guard: "length rets = batch_size ag \<and> length nts = batch_size ag \<and>
         length pns_a = batch_size ag \<and> length (support ag) = atoms ag \<and>
         (\<forall>ps \<in> set pns_a. length ps = atoms ag)"
    using shape grid by (simp add: grid_ok_def)
  have res: "project ag rets nts pns_a = Inr (view_rows B a m2)"
    unfolding project_def using guard m1(1) m2(1)
    by (simp add: Let_def B_def [symmetric] a_def [symmetric] bss_def [symmetric] m0_def [symmetric])
  have rows: "\<forall>k < B. length (view_rows B a m2 ! k) = a \<and>
      (\<forall>j < a. view_rows B a m2 ! k ! j =
         added_at (int (k * a + j)) (gl k) + added_at (int (k * a + j)) (gu k))"
  proof (intro allI impI conjI)
    fix k assume k: "k < B"
    note v = view_rows_nth [OF m2(2) k]
    show "length (view_rows B a m2 ! k) = a" by (rule v(2))
    fix j assume j: "j < a"
    have jj: "k * a + j < B * a" using v(3) j m2(2) by simp
    have "view_rows B a m2 ! k ! j = m2 ! (k * a + j)"
      using v(1) v(3) j by simp
    also have "\<dots> = added_at (int (k * a + j)) (concat (map gl [0..<B])) +
                     added_at (int (k * a + j)) (concat (map gu [0..<B]))"
      using m1(3) m2(3) jj by simp
    also have "\<dots> = added_at (int (k * a + j)) (gl k) + added_at (int (k * a + j)) (gu k)"
      using added_at_concat_rows [OF rl k j] added_at_concat_rows [OF ru k j] by simp
    finally show "view_rows B a m2 ! k ! j =
         added_at (int (k * a + j)) (gl k) + added_at (int (k * a + j)) (gu k)" .
  qed
  have "length (view_rows B a m2) = B" by (simp add: view_rows_def)
  with res rows bssk show ?thesis
    by (simp add: B_def a_def gl_def gu_def)
qed

lemma row_mass:
  assumes "2 \<le> atoms ag" "length bs = length ps"
  shows "sum_list (map snd (lower_row ag k bs ps)) + sum_list (map snd (upper_row ag k bs ps))
         = sum_list ps"
  using assms(2)
proof (induction bs ps rule: list_induct2)
  case Nil
  then show ?case by (simp add: lower_row_def upper_row_def)
next
  case (Cons b bs p ps)
  have "real_of_int (u_fix (atoms ag) b) - real_of_int (l_fix b) = 1"
    using u_fix_minus_l_fix [OF assms(1), of b] by linarith
  then have "p * (real_of_int (u_fix (atoms ag) b) - b) + p * (b - real_of_int (l_fix b)) = p"
    by (simp add: algebra_simps flip: right_diff_distrib)
  then show ?case using Cons.IH by (simp add: lower_row_def upper_row_def)
qed

lemma lower_row_nonneg:
  "\<forall>p \<in> set ps. 0 \<le> p \<Longrightarrow> \<forall>iv \<in> set (lower_row ag k bs ps). 0 \<le> snd iv"
  using u_fix_ge by (auto simp: lower_row_def dest!: set_zip_rightD)

lemma upper_row_nonneg:
  "\<forall>p \<in> set ps. 0 \<le> p \<Longrightarrow> \<forall>iv \<in> set (upper_row ag k bs ps). 0 \<le> snd iv"
  using l_fix_le by (auto simp: upper_row_def dest!: set_zip_rightD)

lemma l_fix_of_nat: "l_fix (real j) = (if 0 < j then int j - 1 else 0)"
  by (simp add: l_fix_def)

lemma u_fix_of_nat: "2 \<le> a \<Longrightarrow> u_fix a (real j) = (if 0 < j then int j else 1)"
  by (auto simp: u_fix_def l_fix_def)

lemma added_at_zero_values: "\<forall>iv \<in> set ivs. snd iv = 0 \<Longrightarrow> added_at i ivs = 0"
  by (induction ivs) (auto simp: added_at_def)

lemma sum_list_zero_values: "\<forall>iv \<in> set ivs. snd iv = (0::real) \<Longrightarrow> sum_list (map snd ivs) = 0"
  by (induction ivs) auto

lemma added_at_same_index: "\<forall>iv \<in> set ivs. fst iv = c \<Longrightarrow>
    added_at i ivs = (if i = c then sum_list (map snd ivs) else 0)"
  by (induction ivs) (auto simp: added_at_def)

lemma rows_on_atom:
  assumes "2 \<le> atoms ag" "length bs = length ps" "\<forall>b \<in> set bs. b = real j"
  shows "added_at i (lower_row ag k bs ps) + added_at i (upper_row ag k bs ps) =
         (if i = int (k * atoms ag + j) then sum_list ps else 0)"
proof -
  have mass: "sum_list (map snd (lower_row ag k bs ps)) + sum_list (map snd (upper_row ag k bs ps))
         = sum_list ps" by (rule row_mass [OF assms(1,2)])
  define l where "l = l_fix (real j)"
  define u where "u = u_fix (atoms ag) (real j)"
  have lu: "l = (if 0 < j then int j - 1 else 0)" "u = (if 0 < j then int j else 1)"
    using assms(1) by (simp_all add: l_def u_def l_fix_of_nat u_fix_of_nat)
  have lo_el: "\<And>iv. iv \<in> set (lower_row ag k bs ps) \<Longrightarrow>
      \<exists>p. iv = (l + int (k * atoms ag), p * (real_of_int u - real j))"
    using assms(3) by (auto simp: lower_row_def l_def u_def dest!: set_zip_leftD)
  have up_el: "\<And>iv. iv \<in> set (upper_row ag k bs ps) \<Longrightarrow>
      \<exists>p. iv = (u + int (k * atoms ag), p * (real j - real_of_int l))"
    using assms(3) by (auto simp: upper_row_def l_def u_def dest!: set_zip_leftD)
  show ?thesis
  proof (cases "0 < j")
    case True
    have lo: "\<forall>iv \<in> set (lower_row ag k bs ps). snd iv = 0"
      using lo_el lu True by fastforce
    have up: "\<forall>iv \<in> set (upper_row ag k bs ps). fst iv = int (k * atoms ag + j)"
      using up_el lu True by fastforce
    have "sum_list (map snd (lower_row ag k bs ps)) = 0"
      by (rule sum_list_zero_values [OF lo])
    then show ?thesis
      using added_at_zero_values [OF lo] added_at_same_index [OF up] mass by simp
  next
    case False
    have up: "\<forall>iv \<in> set (upper_row ag k bs ps). snd iv = 0"
      using up_el lu False by fastforce
    have lo: "\<forall>iv \<in> set (lower_row ag k bs ps). fst iv = int (k * atoms ag + j)"
      using lo_el lu False by fastforce
    have "sum_list (map snd (upper_row ag k bs ps)) = 0"
      by (rule sum_list_zero_values [OF up])
    then show ?thesis
      using added_at_zero_values [OF up] added_at_same_index [OF lo] mass by simp
  qed
qed

lemma project_row_on_atom:
  assumes "grid_ok ag" and "2 \<le> atoms ag" and "V_min ag < V_max ag"
    and "length rets = batch_size ag" and "length nts = batch_size ag"
    and "length pns_a = batch_size ag" and "\<forall>ps \<in> set pns_a. length ps = atoms ag"
    and "k < batch_size ag"
    and "\<forall>z \<in> set (support ag). b_coord ag (rets ! k) (nts ! k) z = real j"
  shows "\<exists>m. project ag rets nts pns_a = Inr m \<and>
           (\<forall>i < atoms ag. m ! k ! i = (if i = j then sum_list (pns_a ! k) else 0))"
proof -
  from project_entries [OF assms(1-7)] obtain m where m:
    "project ag rets nts pns_a = Inr m"
    "\<forall>k < batch_size ag. length (m ! k) = atoms ag \<and>
       (\<forall>j < atoms ag. m ! k ! j =
          added_at (int (k * atoms ag + j))
            (lower_row ag k (row_bs ag (rets ! k) (nts ! k)) (pns_a ! k)) +
          added_at (int (k * atoms ag + j))
            (upper_row ag k (row_bs ag (rets ! k) (nts ! k)) (pns_a ! k)))"
    by blast
  have "pns_a ! k \<in> set pns_a" using assms(6,8) by simp
  then have len: "length (row_bs ag (rets ! k) (nts ! k)) = length (pns_a ! k)"
    using assms(1,7) by (simp add: row_bs_def grid_ok_def)
  have bs: "\<forall>b \<in> set (row_bs ag (rets ! k) (nts ! k)). b = real j"
    using assms(9) by (auto simp: row_bs_def)
  have "\<forall>i < atoms ag. m ! k ! i = (if i = j then sum_list (pns_a ! k) else 0)"
    using m(2) assms(8) rows_on_atom [OF assms(2) len bs, of _ k] by simp
  with m(1) show ?thesis by blast
qed

lemma b_coord_saturated:
  assumes "grid_ok ag" and "2 \<le> atoms ag" and "V_min ag < V_max ag"
    and "V_max ag < r + nt * (discount ag ^ multi_step ag) * z"
  shows "b_coord ag r nt z = real (atoms ag - 1)"
proof -
  have "Tz ag r nt z = V_max ag" using assms(3,4) by (simp add: Tz_def clamp_def)
  moreover have "delta_z ag = (V_max ag - V_min ag) / (real (atoms ag) - 1)"
    using assms(1) by (simp add: grid_ok_def)
  moreover have "real (atoms ag - 1) = real (atoms ag) - 1" using assms(2) by simp
  ultimately show ?thesis using assms(2,3) by (simp add: b_coord_def)
qed

section \<open>Mass conservation and non-negativity\<close>

text \<open>
  C1. For an agent whose grid was set up by the constructor, with at least two atoms
  and \<open>V_min < V_max\<close>, and a batch of the agent's batch size whose selected target
  distributions \<open>pns_a\<close> have \<open>atoms\<close> non-negative entries each, the projection step
  returns a target \<open>m\<close> (it raises nothing), every row of \<open>m\<close> sums to what the same
  row of \<open>pns_a\<close> sums to, and every entry of \<open>m\<close> is non-negative. Arithmetic is exact
  here; the floats of the program agree up to rounding.
\<close>

theorem projection_conserves_mass:
  assumes "grid_ok ag" and "2 \<le> atoms ag" and "V_min ag < V_max ag"
    and "length rets = batch_size ag" and "length nts = batch_size ag"
    and "length pns_a = batch_size ag" and "\<forall>ps \<in> set pns_a. length ps = atoms ag"
    and "\<forall>ps \<in> set pns_a. \<forall>p \<in> set ps. 0 \<le> p"
  shows "\<exists>m. project ag rets nts pns_a = Inr m \<and> length m = batch_size ag \<and>
           (\<forall>k < batch_size ag. length (m ! k) = atoms ag \<and>
              sum_list (m ! k) = sum_list (pns_a ! k) \<and> (\<forall>x \<in> set (m ! k). 0 \<le> x))"
proof -
  from project_entries [OF assms(1-7)] obtain m where m:
    "project ag rets nts pns_a = Inr m" "length m = batch_size ag"
    "\<forall>k < batch_size ag. length (m ! k) = atoms ag \<and>
       (\<forall>j < atoms ag. m ! k ! j =
          added_at (int (k * atoms ag + j))
            (lower_row ag k (row_bs ag (rets ! k) (nts ! k)) (pns_a ! k)) +
          added_at (int (k * atoms ag + j))
            (upper_row ag k (row_bs ag (rets ! k) (nts ! k)) (pns_a ! k)))"
    by blast
  have "\<forall>k < batch_size ag. length (m ! k) = atoms ag \<and>
          sum_list (m ! k) = sum_list (pns_a ! k) \<and> (\<forall>x \<in> set (m ! k). 0 \<le> x)"
  proof (intro allI impI)
    fix k assume k: "k < batch_size ag"
    define bs where "bs = row_bs ag (rets ! k) (nts ! k)"
    define ps where "ps = pns_a ! k"
    define L where "L = lower_row ag k bs ps"
    define U where "U = upper_row ag k bs ps"
    have len: "length (m ! k) = atoms ag"
      and ent: "\<And>j. j < atoms ag \<Longrightarrow>
        m ! k ! j = added_at (int (k * atoms ag + j)) L + added_at (int (k * atoms ag + j)) U"
      using m(3) k by (simp_all add: L_def U_def bs_def ps_def)
    have psin: "ps \<in> set pns_a" using k assms(6) by (simp add: ps_def)
    then have pslen: "length ps = atoms ag" and pspos: "\<forall>p \<in> set ps. 0 \<le> p"
      using assms(7,8) by auto
    have bslen: "length bs = length ps"
      using pslen assms(1) by (simp add: bs_def row_bs_def grid_ok_def)
    have br: "\<forall>b \<in> set bs. 0 \<le> b \<and> b \<le> real (atoms ag) - 1"
      unfolding bs_def by (rule row_bs_range [OF assms(1-3)])
    have "sum_list (m ! k) = (\<Sum>j < atoms ag. m ! k ! j)"
      using len by (simp add: sum_list_sum_nth lessThan_atLeast0)
    also have "\<dots> = (\<Sum>j < atoms ag. added_at (int (k * atoms ag + j)) L) +
                     (\<Sum>j < atoms ag. added_at (int (k * atoms ag + j)) U)"
      using ent by (simp add: sum.distrib)
    also have "\<dots> = sum_list (map snd L) + sum_list (map snd U)"
      using sum_added_at_row [OF lower_row_range [OF assms(2) br, of k ps]]
            sum_added_at_row [OF upper_row_range [OF assms(2) br, of k ps]]
      by (simp add: L_def U_def)
    also have "\<dots> = sum_list ps"
      unfolding L_def U_def by (rule row_mass [OF assms(2) bslen])
    finally have mass: "sum_list (m ! k) = sum_list (pns_a ! k)" by (simp add: ps_def)
    have "\<forall>x \<in> set (m ! k). 0 \<le> x"
    proof
      fix x assume "x \<in> set (m ! k)"
      then obtain j where j: "j < atoms ag" "x = m ! k ! j"
        using len by (auto simp: in_set_conv_nth)
      have "0 \<le> added_at (int (k * atoms ag + j)) L"
        unfolding L_def by (rule added_at_nonneg [OF lower_row_nonneg [OF pspos]])
      moreover have "0 \<le> added_at (int (k * atoms ag + j)) U"
        unfolding U_def by (rule added_at_nonneg [OF upper_row_nonneg [OF pspos]])
      ultimately show "0 \<le> x" using ent [OF j(1)] j(2) by simp
    qed
    with len mass show "length (m ! k) = atoms ag \<and>
          sum_list (m ! k) = sum_list (pns_a ! k) \<and> (\<forall>x \<in> set (m ! k). 0 \<le> x)" by simp
  qed
  with m(1,2) show ?thesis by blast
qed

theorem projection_conserves_mass_witness:
  "grid_ok (example_agent 3 (-1) 1 1) \<and>
   (\<exists>m. project (example_agent 3 (-1) 1 1) [3 / 10] [1] [[1 / 5, 1 / 2, 3 / 10]] = Inr m \<and>
        sum_list (m ! 0) = 1 \<and> (\<forall>x \<in> set (m ! 0). 0 \<le> x))"
proof -
  let ?ag = "example_agent 3 (-1) 1 1"
  have g: "grid_ok ?ag" by (simp add: example_agent_def grid_ok_def)
  have "\<exists>m. project ?ag [3 / 10] [1] [[1 / 5, 1 / 2, 3 / 10]] = Inr m \<and>
          length m = batch_size ?ag \<and>
          (\<forall>k < batch_size ?ag. length (m ! k) = atoms ?ag \<and>
             sum_list (m ! k) = sum_list ([[1 / 5, 1 / 2, 3 / 10]] ! k) \<and>
             (\<forall>x \<in> set (m ! k). 0 \<le> x))"
    by (rule projection_conserves_mass [OF g]) (simp_all add: example_agent_def)
  then obtain m where m: "project ?ag [3 / 10] [1] [[1 / 5, 1 / 2, 3 / 10]] = Inr m"
    "\<forall>k < batch_size ?ag. length (m ! k) = atoms ?ag \<and>
       sum_list (m ! k) = sum_list ([[1 / 5, 1 / 2, 3 / 10]] ! k) \<and> (\<forall>x \<in> set (m ! k). 0 \<le> x)"
    by blast
  have "0 < batch_size ?ag" by (simp add: example_agent_def)
  with m(2) have "sum_list (m ! 0) = 1" "\<forall>x \<in> set (m ! 0). 0 \<le> x" by auto
  with g m(1) show ?thesis by blast
qed

section \<open>Values that land exactly on a grid atom\<close>

lemma added_at_list_update:
  "i < length xs \<Longrightarrow> fst (xs ! i) = c \<Longrightarrow>
   added_at t (xs[i := (c, v)]) = added_at t xs + (if c = t then v - snd (xs ! i) else 0)"
proof (induction xs arbitrary: i)
  case Nil
  then show ?case by simp
next
  case (Cons x xs)
  obtain c0 v0 where x: "x = (c0, v0)" by (cases x)
  show ?case
  proof (cases i)
    case 0
    with Cons.prems x show ?thesis by simp
  next
    case (Suc i')
    with Cons.prems have "i' < length xs" "fst (xs ! i') = c" by simp_all
    from Cons.IH [OF this] Suc x show ?thesis by simp
  qed
qed

lemma lower_row_nth:
  assumes "i < length bs" "i < length ps"
  shows "lower_row ag k bs ps ! i =
         (l_fix (bs ! i) + int (k * atoms ag),
          ps ! i * (real_of_int (u_fix (atoms ag) (bs ! i)) - bs ! i))"
  using assms by (simp add: lower_row_def)

lemma upper_row_nth:
  assumes "i < length bs" "i < length ps"
  shows "upper_row ag k bs ps ! i =
         (u_fix (atoms ag) (bs ! i) + int (k * atoms ag),
          ps ! i * (bs ! i - real_of_int (l_fix (bs ! i))))"
  using assms by (simp add: upper_row_def)

lemma lower_row_update:
  assumes "i < length bs"
  shows "lower_row ag k bs (ps[i := p]) =
         (lower_row ag k bs ps)[i := (l_fix (bs ! i) + int (k * atoms ag),
            p * (real_of_int (u_fix (atoms ag) (bs ! i)) - bs ! i))]"
proof -
  have "zip bs (ps[i := p]) = (zip bs ps)[i := (bs ! i, p)]"
    using zip_update [of bs i "bs ! i" ps p] by simp
  then show ?thesis by (simp add: lower_row_def map_update)
qed

lemma upper_row_update:
  assumes "i < length bs"
  shows "upper_row ag k bs (ps[i := p]) =
         (upper_row ag k bs ps)[i := (u_fix (atoms ag) (bs ! i) + int (k * atoms ag),
            p * (bs ! i - real_of_int (l_fix (bs ! i))))]"
proof -
  have "zip bs (ps[i := p]) = (zip bs ps)[i := (bs ! i, p)]"
    using zip_update [of bs i "bs ! i" ps p] by simp
  then show ?thesis by (simp add: upper_row_def map_update)
qed

lemma value_on_atom_shift:
  assumes a2: "2 \<le> atoms ag" and i: "i < length bs" "i < length ps" and b: "bs ! i = real j"
  shows "added_at t (lower_row ag k bs (ps[i := ps ! i + d])) +
         added_at t (upper_row ag k bs (ps[i := ps ! i + d])) =
         added_at t (lower_row ag k bs ps) + added_at t (upper_row ag k bs ps) +
         (if t = int (k * atoms ag + j) then d else 0)"
proof -
  let ?L = "lower_row ag k bs ps" and ?U = "upper_row ag k bs ps"
  have len: "i < length ?L" "i < length ?U" using i by (simp_all add: lower_row_def upper_row_def)
  have lu: "l_fix (real j) = (if 0 < j then int j - 1 else 0)"
    "u_fix (atoms ag) (real j) = (if 0 < j then int j else 1)"
    using a2 by (simp_all add: l_fix_of_nat u_fix_of_nat)
  note Ln = lower_row_nth [OF i, of ag k] and Un = upper_row_nth [OF i, of ag k]
  have L: "added_at t (lower_row ag k bs (ps[i := ps ! i + d])) =
      added_at t ?L + (if l_fix (real j) + int (k * atoms ag) = t
        then d * (real_of_int (u_fix (atoms ag) (real j)) - real j) else 0)"
    using added_at_list_update [OF len(1), of "l_fix (bs ! i) + int (k * atoms ag)" t
        "(ps ! i + d) * (real_of_int (u_fix (atoms ag) (bs ! i)) - bs ! i)"]
    by (simp add: lower_row_update [OF i(1)] Ln b algebra_simps)
  have U: "added_at t (upper_row ag k bs (ps[i := ps ! i + d])) =
      added_at t ?U + (if u_fix (atoms ag) (real j) + int (k * atoms ag) = t
        then d * (real j - real_of_int (l_fix (real j))) else 0)"
    using added_at_list_update [OF len(2), of "u_fix (atoms ag) (bs ! i) + int (k * atoms ag)" t
        "(ps ! i + d) * (bs ! i - real_of_int (l_fix (bs ! i)))"]
    by (simp add: upper_row_update [OF i(1)] Un b algebra_simps)
  show ?thesis
  proof (cases "0 < j")
    case True
    then show ?thesis unfolding L U lu by auto
  next
    case False
    then show ?thesis unfolding L U lu by auto
  qed
qed

text \<open>
  C2 (as amended). When the grid coordinate \<open>b\<close> of a Bellman-shifted value (source atom
  \<open>i\<close> of row \<open>k\<close>) is exactly the index \<open>j\<close> of a grid atom, the degenerate-neighbour fix
  addresses the atoms \<open>j - 1\<close> and \<open>j\<close> (the atoms \<open>0\<close> and \<open>1\<close> when \<open>j = 0\<close>), and the
  weights \<open>u - b\<close> and \<open>b - l\<close> give the landing atom \<open>j\<close> the whole probability mass
  \<open>pns_a[k, i]\<close> of that value and the other neighbour nothing: the mass is not split
  across \<open>j - 1\<close> and \<open>j + 1\<close>. In the projected target this reads: more mass \<open>d\<close> on
  that value is \<open>d\<close> more on atom \<open>j\<close> of row \<open>k\<close> and leaves every other atom of the row
  as it was. The other values of the row may land anywhere.
\<close>

theorem exact_landing_keeps_mass_on_atom:
  assumes "grid_ok ag" and "2 \<le> atoms ag" and "V_min ag < V_max ag"
    and "length rets = batch_size ag" and "length nts = batch_size ag"
    and "length pns_a = batch_size ag" and "\<forall>ps \<in> set pns_a. length ps = atoms ag"
    and "k < batch_size ag" and "i < atoms ag"
    and "b_coord ag (rets ! k) (nts ! k) (support ag ! i) = real j"
  shows "lower_row ag k (row_bs ag (rets ! k) (nts ! k)) (pns_a ! k) ! i =
           (int (k * atoms ag) + (if 0 < j then int j - 1 else 0),
            if 0 < j then 0 else pns_a ! k ! i) \<and>
         upper_row ag k (row_bs ag (rets ! k) (nts ! k)) (pns_a ! k) ! i =
           (int (k * atoms ag) + (if 0 < j then int j else 1),
            if 0 < j then pns_a ! k ! i else 0) \<and>
         (\<forall>d. \<exists>m m'.
            project ag rets nts pns_a = Inr m \<and>
            project ag rets nts (pns_a[k := (pns_a ! k)[i := pns_a ! k ! i + d]]) = Inr m' \<and>
            (\<forall>t < atoms ag. m' ! k ! t = m ! k ! t + (if t = j then d else 0)))"
proof -
  define bs where "bs = row_bs ag (rets ! k) (nts ! k)"
  define ps where "ps = pns_a ! k"
  have sup: "length (support ag) = atoms ag" using assms(1) by (simp add: grid_ok_def)
  have bl: "i < length bs" using assms(9) sup by (simp add: bs_def row_bs_def)
  have pl: "i < length ps" using assms(6-9) by (simp add: ps_def)
  have bi: "bs ! i = real j" using assms(9,10) sup by (simp add: bs_def row_bs_def)
  have lu: "l_fix (real j) = (if 0 < j then int j - 1 else 0)"
    "u_fix (atoms ag) (real j) = (if 0 < j then int j else 1)"
    using assms(2) by (simp_all add: l_fix_of_nat u_fix_of_nat)
  have lo: "lower_row ag k bs ps ! i =
      (int (k * atoms ag) + (if 0 < j then int j - 1 else 0), if 0 < j then 0 else ps ! i)"
    using lower_row_nth [OF bl pl, of ag k] by (simp add: bi lu)
  have up: "upper_row ag k bs ps ! i =
      (int (k * atoms ag) + (if 0 < j then int j else 1), if 0 < j then ps ! i else 0)"
    using upper_row_nth [OF bl pl, of ag k] by (simp add: bi lu)
  have shift: "\<forall>d. \<exists>m m'.
      project ag rets nts pns_a = Inr m \<and>
      project ag rets nts (pns_a[k := ps[i := ps ! i + d]]) = Inr m' \<and>
      (\<forall>t < atoms ag. m' ! k ! t = m ! k ! t + (if t = j then d else 0))"
  proof
    fix d
    let ?pns' = "pns_a[k := ps[i := ps ! i + d]]"
    have len': "length ?pns' = batch_size ag" using assms(6) by simp
    have "ps \<in> set pns_a" using assms(6,8) by (simp add: ps_def)
    then have "length (ps[i := ps ! i + d]) = atoms ag" using assms(7) by simp
    then have rows': "\<forall>qs \<in> set ?pns'. length qs = atoms ag"
      using assms(7) set_update_subset_insert [of pns_a k "ps[i := ps ! i + d]"] by auto
    have k': "?pns' ! k = ps[i := ps ! i + d]" using assms(6,8) by simp
    from project_entries [OF assms(1-7)] obtain m where m:
      "project ag rets nts pns_a = Inr m"
      "\<forall>t < atoms ag. m ! k ! t =
         added_at (int (k * atoms ag + t)) (lower_row ag k bs ps) +
         added_at (int (k * atoms ag + t)) (upper_row ag k bs ps)"
      using assms(8) by (auto simp: bs_def ps_def)
    from project_entries [OF assms(1-5) len' rows'] obtain m' where m':
      "project ag rets nts ?pns' = Inr m'"
      "\<forall>t < atoms ag. m' ! k ! t =
         added_at (int (k * atoms ag + t)) (lower_row ag k bs (ps[i := ps ! i + d])) +
         added_at (int (k * atoms ag + t)) (upper_row ag k bs (ps[i := ps ! i + d]))"
      using assms(8) k' by (auto simp: bs_def)
    have "\<forall>t < atoms ag. m' ! k ! t = m ! k ! t + (if t = j then d else 0)"
      using m(2) m'(2) value_on_atom_shift [OF assms(2) bl pl bi, of _ k d] by simp
    with m(1) m'(1) show "\<exists>m m'.
      project ag rets nts pns_a = Inr m \<and>
      project ag rets nts ?pns' = Inr m' \<and>
      (\<forall>t < atoms ag. m' ! k ! t = m ! k ! t + (if t = j then d else 0))" by blast
  qed
  from lo up shift show ?thesis by (simp add: bs_def ps_def)
qed

theorem exact_landing_keeps_mass_on_atom_witness:
  "row_bs (example_agent 3 (-1) 1 1) ([0] ! 0) ([1] ! 0) = [1 / 2, 1, 3 / 2] \<and>
   lower_row (example_agent 3 (-1) 1 1) 0 (row_bs (example_agent 3 (-1) 1 1) ([0] ! 0) ([1] ! 0))
       ([[1 / 5, 1 / 2, 3 / 10]] ! 0) ! 1 = (0, 0) \<and>
   upper_row (example_agent 3 (-1) 1 1) 0 (row_bs (example_agent 3 (-1) 1 1) ([0] ! 0) ([1] ! 0))
       ([[1 / 5, 1 / 2, 3 / 10]] ! 0) ! 1 = (1, 1 / 2) \<and>
   project (example_agent 3 (-1) 1 1) [0] [1] [[1 / 5, 1 / 2, 3 / 10]]
     = Inr [[1 / 10, 3 / 4, 3 / 20]] \<and>
   (\<exists>m'. project (example_agent 3 (-1) 1 1) [0] [1] [[1 / 5, 3 / 2, 3 / 10]] = Inr m' \<and>
      m' ! 0 ! 0 = 1 / 10 \<and> m' ! 0 ! 1 = 3 / 4 + 1 \<and> m' ! 0 ! 2 = 3 / 20)"
proof -
  let ?ag = "example_agent 3 (-1) 1 1"
  let ?p = "[[1 / 5, 1 / 2, 3 / 10 :: real]]"
  have g: "grid_ok ?ag" by (simp add: example_agent_def grid_ok_def)
  have a: "atoms ?ag = 3" "batch_size ?ag = 1" by (simp_all add: example_agent_def)
  have r: "row_bs ?ag ([0] ! 0) ([1] ! 0) = [1 / 2, 1, 3 / 2]"
    by (simp add: example_agent_def row_bs_def b_coord_def Tz_def clamp_def linspace_def
        upt_rec numeral_eq_Suc)
  have b: "b_coord ?ag ([0] ! 0) ([1] ! 0) (support ?ag ! 1) = real 1"
    by (simp add: example_agent_def b_coord_def Tz_def clamp_def linspace_def
        upt_rec numeral_eq_Suc)
  have half: "\<lceil>1 / 2 :: real\<rceil> = 1" by (rule ceiling_unique) simp_all
  have pr: "project ?ag [0] [1] ?p = Inr [[1 / 10, 3 / 4, 3 / 20]]"
    by (simp add: half example_agent_def project_def linspace_def row_bs_def b_coord_def Tz_def
      clamp_def contributions_def lower_row_def upper_row_def l_fix_def u_fix_def
      view_rows_def upt_rec numeral_eq_Suc)
  have c: "lower_row ?ag 0 (row_bs ?ag ([0] ! 0) ([1] ! 0)) (?p ! 0) ! 1 =
           (int (0 * atoms ?ag) + (if 0 < (1::nat) then int 1 - 1 else 0),
            if 0 < (1::nat) then 0 else ?p ! 0 ! 1) \<and>
         upper_row ?ag 0 (row_bs ?ag ([0] ! 0) ([1] ! 0)) (?p ! 0) ! 1 =
           (int (0 * atoms ?ag) + (if 0 < (1::nat) then int 1 else 1),
            if 0 < (1::nat) then ?p ! 0 ! 1 else 0) \<and>
         (\<forall>d. \<exists>m m'.
            project ?ag [0] [1] ?p = Inr m \<and>
            project ?ag [0] [1] (?p[0 := (?p ! 0)[1 := ?p ! 0 ! 1 + d]]) = Inr m' \<and>
            (\<forall>t < atoms ?ag. m' ! 0 ! t = m ! 0 ! t + (if t = 1 then d else 0)))"
    by (rule exact_landing_keeps_mass_on_atom [OF g _ _ _ _ _ _ _ _ b])
       (simp_all add: a, simp_all add: example_agent_def)
  from c have lo: "lower_row ?ag 0 (row_bs ?ag ([0] ! 0) ([1] ! 0)) (?p ! 0) ! 1 = (0, 0)"
    and up: "upper_row ?ag 0 (row_bs ?ag ([0] ! 0) ([1] ! 0)) (?p ! 0) ! 1 = (1, 1 / 2)"
    by simp_all
  from c obtain m m' where mm: "project ?ag [0] [1] ?p = Inr m"
    "project ?ag [0] [1] (?p[0 := (?p ! 0)[1 := ?p ! 0 ! 1 + 1]]) = Inr m'"
    "\<forall>t < atoms ?ag. m' ! 0 ! t = m ! 0 ! t + (if t = 1 then 1 else 0)"
    by blast
  from mm(1) pr have m: "m = [[1 / 10, 3 / 4, 3 / 20]]" by simp
  from mm(2) have p': "project ?ag [0] [1] [[1 / 5, 3 / 2, 3 / 10]] = Inr m'" by simp
  from mm(3) m a have "m' ! 0 ! 0 = 1 / 10" "m' ! 0 ! 1 = 3 / 4 + 1" "m' ! 0 ! 2 = 3 / 20"
    by simp_all
  with r lo up pr p' show ?thesis by blast
qed

text \<open>
  The end-to-end example of the specification (three atoms on \<open>[-1, 1]\<close>, one terminal
  sample with return \<open>0\<close> and all mass on atom \<open>1\<close>) projects to \<open>[0, 1, 0]\<close>, not to
  \<open>[1/2, 0, 1/2]\<close>; on five atoms over \<open>[-2, 2]\<close>, mass that lands on atom \<open>2\<close> stays
  there.
\<close>

theorem exact_landing_not_split:
  "project (example_agent 3 (-1) 1 1) [0] [0] [[0, 1, 0]] = Inr [[0, 1, 0]] \<and>
   project (example_agent 3 (-1) 1 1) [0] [0] [[0, 1, 0]] \<noteq> Inr [[1 / 2, 0, 1 / 2]] \<and>
   project (example_agent 5 (-2) 2 1) [0] [0] [[0, 0, 1, 0, 0]] = Inr [[0, 0, 1, 0, 0]]"
  by (simp add: example_agent_def project_def linspace_def row_bs_def b_coord_def Tz_def
      clamp_def contributions_def lower_row_def upper_row_def l_fix_def u_fix_def
      view_rows_def upt_rec numeral_eq_Suc)

section \<open>Saturation at the upper bound\<close>

text \<open>
  C5. When the Bellman-shifted value of row \<open>k\<close> is above \<open>V_max\<close> at every support
  value (before the clamp), with at least two atoms, the projection step puts the
  whole mass of \<open>pns_a[k]\<close> on the last atom of row \<open>k\<close> and zero on every other atom.
\<close>

theorem saturated_row_projects_onto_last_atom:
  assumes "grid_ok ag" and "2 \<le> atoms ag" and "V_min ag < V_max ag"
    and "length rets = batch_size ag" and "length nts = batch_size ag"
    and "length pns_a = batch_size ag" and "\<forall>ps \<in> set pns_a. length ps = atoms ag"
    and "k < batch_size ag"
    and "\<forall>z \<in> set (support ag).
           V_max ag < rets ! k + nts ! k * (discount ag ^ multi_step ag) * z"
  shows "\<exists>m. project ag rets nts pns_a = Inr m \<and>
           m ! k ! (atoms ag - 1) = sum_list (pns_a ! k) \<and>
           (\<forall>i < atoms ag - 1. m ! k ! i = 0)"
proof -
  have "\<forall>z \<in> set (support ag). b_coord ag (rets ! k) (nts ! k) z = real (atoms ag - 1)"
    using b_coord_saturated [OF assms(1-3)] assms(9) by blast
  from project_row_on_atom [OF assms(1-8) this] obtain m where
    m: "project ag rets nts pns_a = Inr m"
      "\<forall>i < atoms ag. m ! k ! i = (if i = atoms ag - 1 then sum_list (pns_a ! k) else 0)"
    by blast
  have "atoms ag - 1 < atoms ag" using assms(2) by simp
  with m(2) have "m ! k ! (atoms ag - 1) = sum_list (pns_a ! k)" by simp
  moreover have "\<forall>i < atoms ag - 1. m ! k ! i = 0" using m(2) by simp
  ultimately show ?thesis using m(1) by blast
qed

theorem saturated_row_projects_onto_last_atom_witness:
  "grid_ok (example_agent 3 (-1) 1 1) \<and>
   list_all (\<lambda>z. V_max (example_agent 3 (-1) 1 1) <
        [5] ! 0 + [1] ! 0 * (discount (example_agent 3 (-1) 1 1) ^ multi_step (example_agent 3 (-1) 1 1)) * z)
     (support (example_agent 3 (-1) 1 1)) \<and>
   (\<exists>m. project (example_agent 3 (-1) 1 1) [5] [1] [[1 / 5, 1 / 2, 3 / 10]] = Inr m \<and>
        m ! 0 ! 2 = 1 \<and> m ! 0 ! 0 = 0 \<and> m ! 0 ! 1 = 0)"
proof -
  let ?ag = "example_agent 3 (-1) 1 1"
  let ?p = "[[1 / 5, 1 / 2, 3 / 10 :: real]]"
  have g: "grid_ok ?ag" by (simp add: example_agent_def grid_ok_def)
  have a: "atoms ?ag = 3" "batch_size ?ag = 1" by (simp_all add: example_agent_def)
  have h: "\<forall>z \<in> set (support ?ag).
      V_max ?ag < [5] ! 0 + [1] ! 0 * (discount ?ag ^ multi_step ?ag) * z"
    by (simp add: example_agent_def linspace_def upt_rec numeral_eq_Suc)
  have "\<exists>m. project ?ag [5] [1] ?p = Inr m \<and>
           m ! 0 ! (atoms ?ag - 1) = sum_list (?p ! 0) \<and>
           (\<forall>i < atoms ?ag - 1. m ! 0 ! i = 0)"
    by (rule saturated_row_projects_onto_last_atom [OF g _ _ _ _ _ _ _ h]) (simp_all add: a, simp_all add: example_agent_def)
  then show ?thesis using g h a by (auto simp: list_all_iff)
qed

section \<open>Construction and synchronisation: what the result is\<close>

lemma map_of_map_keyed:
  "map_of (map (\<lambda>(k, v). (k, f k v)) ps) k = map_option (f k) (map_of ps k)"
  by (induction ps) auto

lemma load_state_dict_Inr:
  assumes "load_state_dict net sd = Inr net'"
  shows "map_of (params net') = map_of sd"
    and "map fst (params net') = map fst (params net)"
    and "net' = net\<lparr>params := params net'\<rparr>"
proof -
  from assms have keys: "set (map fst sd) = set (map fst (params net))"
    and net': "net' = net\<lparr>params :=
        map (\<lambda>(k, v). (k, case map_of sd k of Some w \<Rightarrow> w | None \<Rightarrow> v)) (params net)\<rparr>"
    by (auto simp: load_state_dict_def split: if_splits)
  show "map_of (params net') = map_of sd"
  proof
    fix k
    show "map_of (params net') k = map_of sd k"
    proof (cases "map_of sd k")
      case None
      then have "k \<notin> set (map fst (params net))"
        using keys by (simp add: map_of_eq_None_iff)
      then have "map_of (params net) k = None" by (simp add: map_of_eq_None_iff)
      with None net' show ?thesis by (simp add: map_of_map_keyed)
    next
      case (Some w)
      then have "k \<in> set (map fst (params net))"
        using keys by (metis map_of_eq_None_iff option.distinct(1) set_map)
      then obtain v where "map_of (params net) k = Some v"
        by (metis map_of_eq_None_iff not_Some_eq set_map)
      with Some net' show ?thesis by (simp add: map_of_map_keyed)
    qed
  qed
  show "map fst (params net') = map fst (params net)"
    using net' by (simp add: case_prod_unfold)
  show "net' = net\<lparr>params := params net'\<rparr>" using net' by simp
qed

lemma update_target_net_Inr:
  assumes "update_target_net ag = Inr ag'"
  shows "map_of (params (target_net ag')) = map_of (params (online_net ag))"
    and "ag' = ag\<lparr>target_net := (target_net ag)\<lparr>params := params (target_net ag')\<rparr>\<rparr>"
proof -
  from assms obtain t where t: "load_state_dict (target_net ag) (params (online_net ag)) = Inr t"
    and ag': "ag' = ag\<lparr>target_net := t\<rparr>"
    by (auto simp: update_target_net_def state_dict_def split: sum.splits)
  note l = load_state_dict_Inr [OF t]
  show "map_of (params (target_net ag')) = map_of (params (online_net ag))"
    using l(1) ag' by simp
  show "ag' = ag\<lparr>target_net := (target_net ag)\<lparr>params := params (target_net ag')\<rparr>\<rparr>"
    using l(3) ag' by simp
qed

lemma update_target_net_returns:
  assumes "set (map fst (params (online_net ag))) = set (map fst (params (target_net ag)))"
    and "list_all (\<lambda>(k, v). map_option length (map_of (params (online_net ag)) k) = Some (length v))
           (params (target_net ag))"
  shows "\<exists>ag'. update_target_net ag = Inr ag'"
  using assms by (simp add: update_target_net_def load_state_dict_def state_dict_def)

lemma Agent_init_grid_ok:
  assumes "Agent_init T fs a results_dir acts fresh_online fresh_target = Inr ag"
  shows "grid_ok ag"
  using assms
  by (auto simp: Agent_init_def Let_def update_target_net_def grid_ok_def
      split: if_splits sum.splits option.splits)

section \<open>Legacy parameter names\<close>

lemma remap_keys_result:
  assumes "distinct (map fst ps)" "distinct (map snd ps)"
    "set (map fst ps) \<inter> set (map snd ps) = {}" "remap_keys ps sd = Inr sd'"
  shows "(\<forall>(old_key, new_key) \<in> set ps.
            map_of sd old_key \<noteq> None \<and> map_of sd' new_key = map_of sd old_key \<and>
            map_of sd' old_key = None) \<and>
         (\<forall>k. k \<notin> set (map fst ps) \<and> k \<notin> set (map snd ps) \<longrightarrow> map_of sd' k = map_of sd k)"
  using assms
proof (induction ps arbitrary: sd)
  case Nil
  then show ?case by simp
next
  case (Cons p ps)
  obtain ok nk where p: "p = (ok, nk)" by (cases p)
  from Cons.prems(4) p obtain v where v: "map_of sd ok = Some v"
    and rest: "remap_keys ps (AList.delete ok (AList.update nk v sd)) = Inr sd'"
    by (auto split: option.splits)
  let ?sd1 = "AList.delete ok (AList.update nk v sd)"
  have sd1: "map_of ?sd1 = ((map_of sd)(nk \<mapsto> v))(ok := None)"
    by (simp add: delete_conv' update_conv')
  have d: "distinct (map fst ps)" "distinct (map snd ps)"
    "set (map fst ps) \<inter> set (map snd ps) = {}"
    using Cons.prems(1-3) by auto
  have fresh: "ok \<notin> set (map fst ps)" "ok \<notin> set (map snd ps)"
    "nk \<notin> set (map fst ps)" "nk \<notin> set (map snd ps)" "ok \<noteq> nk"
    using Cons.prems(1-3) p by auto
  note IH = Cons.IH [OF d rest, unfolded sd1]
  have head: "map_of sd' nk = map_of sd ok" "map_of sd' ok = None"
    using IH fresh v by auto
  have tail: "\<forall>(old_key, new_key) \<in> set ps.
      map_of sd old_key \<noteq> None \<and> map_of sd' new_key = map_of sd old_key \<and>
      map_of sd' old_key = None"
  proof (clarify, intro conjI)
    fix o' n' assume in_ps: "(o', n') \<in> set ps"
    then have ne: "o' \<noteq> ok" "o' \<noteq> nk" using fresh by force+
    from IH in_ps have "((map_of sd)(nk \<mapsto> v, ok := None)) o' \<noteq> None"
      "map_of sd' n' = ((map_of sd)(nk \<mapsto> v, ok := None)) o'" "map_of sd' o' = None" by auto
    then show "map_of sd o' \<noteq> None" "map_of sd' n' = map_of sd o'" "map_of sd' o' = None"
      using ne by auto
  qed
  have other: "\<forall>k. k \<notin> set (map fst (p # ps)) \<and> k \<notin> set (map snd (p # ps)) \<longrightarrow>
      map_of sd' k = map_of sd k"
    using IH p by auto
  show ?case using head tail other v p by auto
qed

lemma remap_keys_complete:
  assumes "distinct (map fst ps)" "set (map fst ps) \<inter> set (map snd ps) = {}"
    "\<forall>k \<in> set (map fst ps). map_of sd k \<noteq> None"
  shows "\<exists>sd'. remap_keys ps sd = Inr sd'"
  using assms
proof (induction ps arbitrary: sd)
  case Nil
  then show ?case by simp
next
  case (Cons p ps)
  obtain ok nk where p: "p = (ok, nk)" by (cases p)
  from Cons.prems(3) p obtain v where v: "map_of sd ok = Some v" by auto
  have "\<forall>k \<in> set (map fst ps). map_of (AList.delete ok (AList.update nk v sd)) k \<noteq> None"
    using Cons.prems p by (auto simp: delete_conv' update_conv')
  moreover have "distinct (map fst ps)" "set (map fst ps) \<inter> set (map snd ps) = {}"
    using Cons.prems by auto
  ultimately have "\<exists>sd'. remap_keys ps (AList.delete ok (AList.update nk v sd)) = Inr sd'"
    using Cons.IH by blast
  then show ?case using p v by simp
qed

lemma legacy_keys_distinct:
  "distinct (map fst legacy_keys)" "distinct (map snd legacy_keys)"
  "set (map fst legacy_keys) \<inter> set (map snd legacy_keys) = {}"
  by (simp_all add: legacy_keys_def)

lemma key_present_iff: "k \<in> fst ` set sd \<longleftrightarrow> map_of sd k \<noteq> None"
  by (simp add: map_of_eq_None_iff)

lemma remap_legacy_completes_iff:
  assumes "''conv1.weight'' \<in> set (map fst sd)"
  shows "(\<exists>sd'. remap_legacy sd = Inr sd') \<longleftrightarrow>
         (\<forall>k \<in> set (map fst legacy_keys). k \<in> set (map fst sd))"
proof
  assume "\<exists>sd'. remap_legacy sd = Inr sd'"
  then obtain sd' where "remap_keys legacy_keys sd = Inr sd'"
    using assms by (auto simp: remap_legacy_def)
  from remap_keys_result [OF legacy_keys_distinct this]
  have "\<forall>(old_key, new_key) \<in> set legacy_keys. map_of sd old_key \<noteq> None" by blast
  then show "\<forall>k \<in> set (map fst legacy_keys). k \<in> set (map fst sd)"
    by (auto simp: key_present_iff [of _ sd])
next
  assume "\<forall>k \<in> set (map fst legacy_keys). k \<in> set (map fst sd)"
  then have "\<forall>k \<in> set (map fst legacy_keys). map_of sd k \<noteq> None"
    by (simp add: key_present_iff [of _ sd])
  from remap_keys_complete [OF legacy_keys_distinct(1,3) this] assms
  show "\<exists>sd'. remap_legacy sd = Inr sd'" by (simp add: remap_legacy_def)
qed

lemma remap_legacy_incomplete:
  "remap_legacy [(''conv1.weight'', w)] = Inl (KeyError ''conv1.bias'')"
  by (simp add: remap_legacy_def legacy_keys_def)

text \<open>
  C9. When the deserialized mapping holds \<^verbatim>\<open>conv1.weight\<close> and the remapping loop runs
  to its end, then for every pair of the naming scheme the legacy key was present,
  the new key holds its tensor and the legacy key is no key of the mapping any more,
  so that no legacy name is left and no tensor is stored under both names; and this
  remapped mapping is the one that \<^verbatim>\<open>load_state_dict\<close> receives. (A mapping that holds
  \<^verbatim>\<open>conv1.weight\<close> but lacks another legacy key raises \<^verbatim>\<open>KeyError\<close> in the loop, and
  nothing is bound.)
\<close>

theorem legacy_keys_remapped_before_load:
  assumes "''conv1.weight'' \<in> set (map fst sd)" and "remap_legacy sd = Inr sd'"
  shows "(\<forall>(old_key, new_key) \<in> set legacy_keys.
            old_key \<in> set (map fst sd) \<and> map_of sd' new_key = map_of sd old_key \<and>
            old_key \<notin> set (map fst sd')) \<and>
         (\<forall>fs (net :: 'nz net) file. is_file fs file \<and> torch_load fs file = Inr sd \<longrightarrow>
            load_model fs net file = load_state_dict net sd')"
proof -
  from assms have "remap_keys legacy_keys sd = Inr sd'" by (simp add: remap_legacy_def)
  from remap_keys_result [OF legacy_keys_distinct this]
  have "\<forall>(old_key, new_key) \<in> set legacy_keys.
      map_of sd old_key \<noteq> None \<and> map_of sd' new_key = map_of sd old_key \<and>
      map_of sd' old_key = None" by blast
  then have "\<forall>(old_key, new_key) \<in> set legacy_keys.
      old_key \<in> set (map fst sd) \<and> map_of sd' new_key = map_of sd old_key \<and>
      old_key \<notin> set (map fst sd')"
    by (simp add: key_present_iff [of _ sd] key_present_iff [of _ sd'])
  moreover have "\<forall>fs (net :: 'nz net) file. is_file fs file \<and> torch_load fs file = Inr sd \<longrightarrow>
            load_model fs net file = load_state_dict net sd'"
    using assms(2) by (simp add: load_model_def)
  ultimately show ?thesis by blast
qed

theorem legacy_keys_remapped_before_load_witness:
  "''conv1.weight'' \<in> set (map fst example_state_dict) \<and>
   is_file example_files ''results/legacy.pth'' \<and>
   torch_load example_files ''results/legacy.pth'' = Inr example_state_dict \<and>
   (\<exists>sd'. remap_legacy example_state_dict = Inr sd' \<and>
      map_of sd' ''convs.0.weight'' = Some [1] \<and> ''conv1.weight'' \<notin> set (map fst sd') \<and>
      map_of sd' ''convs.4.bias'' = Some [6] \<and> ''conv3.bias'' \<notin> set (map fst sd') \<and>
      load_model example_files (example_net []) ''results/legacy.pth''
        = load_state_dict (example_net []) sd')"
proof -
  have h: "''conv1.weight'' \<in> set (map fst example_state_dict)"
    by (simp add: example_state_dict_def)
  have f: "is_file example_files ''results/legacy.pth''"
    "torch_load example_files ''results/legacy.pth'' = Inr example_state_dict"
    by (simp_all add: example_files_def)
  have "\<exists>sd'. remap_keys legacy_keys example_state_dict = Inr sd'"
    by (rule remap_keys_complete [OF legacy_keys_distinct(1,3)])
       (simp add: legacy_keys_def example_state_dict_def)
  then obtain sd' where r: "remap_legacy example_state_dict = Inr sd'"
    using h by (auto simp: remap_legacy_def)
  note c = legacy_keys_remapped_before_load [OF h r]
  from c have all: "\<forall>(old_key, new_key) \<in> set legacy_keys.
     old_key \<in> set (map fst example_state_dict) \<and>
     map_of sd' new_key = map_of example_state_dict old_key \<and>
     old_key \<notin> set (map fst sd')" by blast
  from c f have bound: "load_model example_files (example_net []) ''results/legacy.pth''
        = load_state_dict (example_net []) sd'" by blast
  have "(''conv1.weight'', ''convs.0.weight'') \<in> set legacy_keys"
    "(''conv3.bias'', ''convs.4.bias'') \<in> set legacy_keys"
    by (simp_all add: legacy_keys_def)
  with all have "map_of sd' ''convs.0.weight'' = map_of example_state_dict ''conv1.weight''"
    "''conv1.weight'' \<notin> set (map fst sd')"
    "map_of sd' ''convs.4.bias'' = map_of example_state_dict ''conv3.bias''"
    "''conv3.bias'' \<notin> set (map fst sd')"
    by blast+
  then have "map_of sd' ''convs.0.weight'' = Some [1]" "''conv1.weight'' \<notin> set (map fst sd')"
    "map_of sd' ''convs.4.bias'' = Some [6]" "''conv3.bias'' \<notin> set (map fst sd')"
    by (simp_all add: example_state_dict_def)
  with h f r bound show ?thesis by blast
qed

section \<open>Target synchronisation\<close>

text \<open>
  C6. When \<^verbatim>\<open>update_target_net\<close> returns, every parameter name holds in the target
  estimator the tensor it holds in the online estimator (and a name that is no
  parameter of the one is none of the other), and the online estimator is the one
  from before the call.
\<close>

theorem update_target_net_copies_online:
  assumes "update_target_net ag = Inr ag'"
  shows "(\<forall>name. map_of (params (target_net ag')) name = map_of (params (online_net ag)) name) \<and>
         online_net ag' = online_net ag"
proof -
  note u = update_target_net_Inr [OF assms]
  have "online_net ag' = online_net ag" by (subst u(2)) simp
  with u(1) show ?thesis by simp
qed

theorem update_target_net_copies_online_witness:
  "\<exists>ag'. update_target_net (example_agent 3 (-1) 1 1) = Inr ag' \<and>
     map_of (params (target_net ag')) ''dist'' = Some [0, 0, 1, 1, 0, 0] \<and>
     online_net ag' = online_net (example_agent 3 (-1) 1 1)"
proof -
  let ?ag = "example_agent 3 (-1) 1 1"
  have "\<exists>ag'. update_target_net ?ag = Inr ag'"
    by (rule update_target_net_returns) (simp_all add: example_agent_def example_net_def)
  then obtain ag' where r: "update_target_net ?ag = Inr ag'" ..
  from update_target_net_copies_online [OF r]
  have "map_of (params (target_net ag')) ''dist'' = map_of (params (online_net ?ag)) ''dist''"
    "online_net ag' = online_net ?ag" by simp_all
  moreover have "map_of (params (online_net ?ag)) ''dist'' = Some [0, 0, 1, 1, 0, 0]"
    by (simp add: example_agent_def example_net_def)
  ultimately show ?thesis using r by simp
qed

section \<open>A missing pretrained model\<close>

text \<open>
  C8. When \<^verbatim>\<open>args.model\<close> names a model (it is neither \<^verbatim>\<open>None\<close> nor empty) and the
  path resolved against the results directory is not a file, the constructor builds
  no agent: it fails, and for every number of atoms that passes line 19 the failure
  is \<^verbatim>\<open>FileNotFoundError\<close> carrying the resolved path.
\<close>

theorem missing_model_file_is_fatal:
  assumes "arg_model a = Some name" and "name \<noteq> []"
    and "\<not> is_file fs (joinpath fs results_dir name)"
  shows "(\<exists>e. Agent_init T fs a results_dir acts fresh_online fresh_target = Inl e) \<and>
         (arg_atoms a \<noteq> 1 \<longrightarrow>
            Agent_init T fs a results_dir acts fresh_online fresh_target =
              Inl (FileNotFoundError (joinpath fs results_dir name)))"
  using assms by (simp add: Agent_init_def load_model_def)

theorem missing_model_file_is_fatal_witness:
  "arg_model (example_args (Some ''missing.pth'')) = Some ''missing.pth'' \<and>
   \<not> is_file example_files (joinpath example_files ''results'' ''missing.pth'') \<and>
   Agent_init example_torch example_files (example_args (Some ''missing.pth'')) ''results'' 2
     (example_net [0, 0, 1, 1, 0, 0]) (example_net [1, 0, 0, 0, 0, 1])
   = Inl (FileNotFoundError ''results/missing.pth'')"
proof -
  have h: "arg_model (example_args (Some ''missing.pth'')) = Some ''missing.pth''"
    "''missing.pth'' \<noteq> []"
    "\<not> is_file example_files (joinpath example_files ''results'' ''missing.pth'')"
    by (simp_all add: example_args_def example_files_def)
  have "arg_atoms (example_args (Some ''missing.pth'')) \<noteq> 1" by (simp add: example_args_def)
  with missing_model_file_is_fatal [OF h, of example_torch 2 "example_net [0, 0, 1, 1, 0, 0]"
      "example_net [1, 0, 0, 0, 0, 1]"]
  have "Agent_init example_torch example_files (example_args (Some ''missing.pth'')) ''results'' 2
     (example_net [0, 0, 1, 1, 0, 0]) (example_net [1, 0, 0, 0, 0, 1])
   = Inl (FileNotFoundError (joinpath example_files ''results'' ''missing.pth''))" by blast
  then show ?thesis using h by (simp add: example_files_def)
qed

section \<open>Selection of the largest expected value\<close>

lemma argmax_from_props:
  assumes "ys = pre @ xs" "length pre = i" "best < i" "bv = ys ! best"
    "\<forall>j < i. ys ! j \<le> bv"
  shows "argmax_from best bv i xs < length ys \<and>
         (\<forall>j < length ys. ys ! j \<le> ys ! argmax_from best bv i xs)"
  using assms
proof (induction xs arbitrary: best bv i pre)
  case Nil
  then show ?case by simp
next
  case (Cons x xs)
  have ysi: "ys ! i = x" using Cons.prems(1,2) by (simp add: nth_append)
  have ys: "ys = (pre @ [x]) @ xs" "length (pre @ [x]) = Suc i"
    using Cons.prems(1,2) by simp_all
  show ?case
  proof (cases "bv < x")
    case True
    have "\<forall>j < Suc i. ys ! j \<le> x"
      using Cons.prems(5) True ysi by (auto simp: less_Suc_eq)
    from Cons.IH [OF ys _ _ this, of i] ysi True show ?thesis by simp
  next
    case False
    have "\<forall>j < Suc i. ys ! j \<le> bv"
      using Cons.prems(5) False ysi by (auto simp: less_Suc_eq)
    from Cons.IH [OF ys _ Cons.prems(4) this] Cons.prems(3) False show ?thesis by simp
  qed
qed

lemma argmax_Inr:
  assumes "argmax xs = Inr a"
  shows "a < length xs \<and> (\<forall>j < length xs. xs ! j \<le> xs ! a)"
proof -
  from assms obtain x rest where xs: "xs = x # rest" and a: "a = argmax_from 0 x 1 rest"
    by (auto simp: argmax_def split: list.splits)
  have "argmax_from 0 x 1 rest < length xs \<and>
        (\<forall>j < length xs. xs ! j \<le> xs ! argmax_from 0 x 1 rest)"
  proof (rule argmax_from_props)
    show "xs = [x] @ rest" using xs by simp
    show "length [x] = 1" by simp
    show "(0::nat) < 1" by simp
    show "x = xs ! 0" using xs by simp
    show "\<forall>j < 1. xs ! j \<le> x" using xs by simp
  qed
  then show ?thesis using a by simp
qed

lemma argmax_rows_Inr:
  "argmax_rows qs = Inr am \<Longrightarrow>
   length am = length qs \<and> (\<forall>k < length qs. argmax (qs ! k) = Inr (am ! k))"
proof (induction qs arbitrary: am)
  case Nil
  then show ?case by simp
next
  case (Cons q qs)
  from Cons.prems obtain a as where a: "argmax q = Inr a" "argmax_rows qs = Inr as" "am = a # as"
    by (auto split: sum.splits)
  from Cons.IH [OF a(2)] a(1,3) show ?case by (auto simp: nth_Cons split: nat.splits)
qed

lemma sum_list_map2_mult:
  "length xs = length ys \<Longrightarrow>
   sum_list (map2 (*) xs ys) = (\<Sum>i < length xs. xs ! i * ys ! (i::nat) :: real)"
proof (induction xs ys rule: list_induct2)
  case Nil
  then show ?case by simp
next
  case (Cons x xs y ys)
  have "(\<Sum>i < Suc (length xs). (x # xs) ! i * (y # ys) ! i) =
        (x # xs) ! 0 * (y # ys) ! 0 + (\<Sum>i < length xs. (x # xs) ! Suc i * (y # ys) ! Suc i)"
    by (rule sum.lessThan_Suc_shift)
  then have "(\<Sum>i < length (x # xs). (x # xs) ! i * (y # ys) ! i) =
        x * y + (\<Sum>i < length xs. xs ! i * ys ! i)"
    by simp
  with Cons.IH show ?case by simp
qed

lemma double_q_Inr:
  assumes "double_q T ag nxt nz = Inr (am, tgt, pa)"
  shows "tgt = net_reset_noise (target_net ag) nz"
    and "length am = batch_size ag"
    and "length (forward T (online_net ag) nxt False) = batch_size ag"
    and "pa = gather (batch_size ag) (forward T tgt nxt False) am"
    and "\<forall>k < batch_size ag.
           argmax (expected_values (support ag) (forward T (online_net ag) nxt False ! k))
             = Inr (am ! k)"
    and "\<forall>acts \<in> set (forward T (online_net ag) nxt False).
           \<forall>p \<in> set acts. length p = length (support ag)"
    and "\<forall>k < batch_size ag. am ! k < length (forward T tgt nxt False ! k)"
proof -
  let ?pns = "forward T (online_net ag) nxt False"
  let ?tgt = "net_reset_noise (target_net ag) nz"
  from assms have shape: "\<forall>acts \<in> set ?pns. \<forall>p \<in> set acts. length p = length (support ag)"
    by (auto simp: double_q_def Let_def split: if_splits)
  with assms obtain am' where am': "argmax_rows (map (expected_values (support ag)) ?pns) = Inr am'"
    and rest: "(case index_rows (batch_size ag) (forward T ?tgt nxt False) am' of
                  Inl e \<Rightarrow> Inl e | Inr pns_a \<Rightarrow> Inr (am', ?tgt, pns_a)) = Inr (am, tgt, pa)"
    by (auto simp: double_q_def Let_def split: if_splits sum.splits)
  from rest obtain pa' where pa': "index_rows (batch_size ag) (forward T ?tgt nxt False) am' = Inr pa'"
    and eq: "am' = am" "?tgt = tgt" "pa' = pa"
    by (auto split: sum.splits)
  from pa' have ix: "length am' = batch_size ag"
    "\<forall>k < batch_size ag. am' ! k < length (forward T ?tgt nxt False ! k)"
    "pa' = gather (batch_size ag) (forward T ?tgt nxt False) am'"
    by (auto simp: index_rows_def split: if_splits)
  from argmax_rows_Inr [OF am'] have ar: "length am' = length ?pns"
    "\<forall>k < length ?pns. argmax (expected_values (support ag) (?pns ! k)) = Inr (am' ! k)"
    by simp_all
  show "tgt = net_reset_noise (target_net ag) nz" using eq by simp
  show "length am = batch_size ag" using ix eq by simp
  show "length ?pns = batch_size ag" using ix ar by simp
  show "pa = gather (batch_size ag) (forward T tgt nxt False) am" using ix eq by simp
  show "\<forall>k < batch_size ag. argmax (expected_values (support ag) (?pns ! k)) = Inr (am ! k)"
    using ar ix eq by simp
  show "\<forall>acts \<in> set ?pns. \<forall>p \<in> set acts. length p = length (support ag)" by (rule shape)
  show "\<forall>k < batch_size ag. am ! k < length (forward T tgt nxt False ! k)" using ix eq by simp
qed

section \<open>What a returning call of learn has computed\<close>

lemma index_add_length: "index_add m ivs = Inr m' \<Longrightarrow> length m' = length m"
proof (induction ivs arbitrary: m)
  case Nil
  then show ?case by simp
next
  case (Cons iv ivs)
  obtain i v where iv: "iv = (i, v)" by (cases iv)
  with Cons.prems have "index_add (m[nat i := m ! nat i + v]) ivs = Inr m'"
    by (simp split: if_splits)
  from Cons.IH [OF this] show ?case by simp
qed

lemma project_Inr_shape:
  assumes "project ag rets nts pa = Inr m"
  shows "length m = batch_size ag" and "\<forall>k < batch_size ag. length (m ! k) = atoms ag"
proof -
  from assms obtain m1 m2 where
    m1: "index_add (replicate (batch_size ag * atoms ag) 0)
           (contributions (lower_row ag) (batch_size ag)
              (map (\<lambda>(r, nt). row_bs ag r nt) (zip rets nts)) pa) = Inr m1"
    and m2: "index_add m1
           (contributions (upper_row ag) (batch_size ag)
              (map (\<lambda>(r, nt). row_bs ag r nt) (zip rets nts)) pa) = Inr m2"
    and m: "m = view_rows (batch_size ag) (atoms ag) m2"
    by (auto simp: project_def Let_def split: if_splits sum.splits)
  have len: "length m2 = batch_size ag * atoms ag"
    using index_add_length [OF m1] index_add_length [OF m2] by simp
  show "length m = batch_size ag" using m by (simp add: view_rows_def)
  show "\<forall>k < batch_size ag. length (m ! k) = atoms ag"
    using view_rows_nth(2) [OF len] m by simp
qed

lemma learn_Inr:
  assumes "learn T ag bt nz = Inr tr"
  obtains am tgt m where
    "index_rows (batch_size ag) (forward T (online_net ag) (states bt) True) (actions bt)
       = Inr (gather (batch_size ag) (forward T (online_net ag) (states bt) True) (actions bt))"
    "double_q T ag (next_states bt) nz = Inr (am, tgt, learn_pns_a tr)"
    "project ag (returns bt) (nonterminals bt) (learn_pns_a tr) = Inr m"
    "\<forall>lp \<in> set (gather (batch_size ag) (forward T (online_net ag) (states bt) True) (actions bt)).
       length lp = atoms ag"
    "length (weights bt) = batch_size ag"
    "learn_argmax_indices_ns tr = am" "learn_m tr = m"
    "learn_loss tr = cross_entropy m
       (gather (batch_size ag) (forward T (online_net ag) (states bt) True) (actions bt))"
    "learn_update_priorities tr = [(idxs bt, learn_loss tr)]"
    "learn_objective tr = objective T ag bt m (params (online_net ag))"
    "learn_agent tr =
       ag\<lparr>online_net := (online_net ag)\<lparr>params :=
              snd (optimiser_step T (optimiser ag) (params (online_net ag))
                (clip_grad_norm T (backward T (objective T ag bt m) (params (online_net ag)))
                   (norm_clip ag)))\<rparr>,
          target_net := tgt,
          optimiser :=
              fst (optimiser_step T (optimiser ag) (params (online_net ag))
                (clip_grad_norm T (backward T (objective T ag bt m) (params (online_net ag)))
                   (norm_clip ag)))\<rparr>"
proof -
  let ?lp = "forward T (online_net ag) (states bt) True"
  from assms obtain lpa where lpa: "index_rows (batch_size ag) ?lp (actions bt) = Inr lpa"
    by (auto simp: learn_def Let_def split: sum.splits)
  then have lpa_eq: "lpa = gather (batch_size ag) ?lp (actions bt)"
    by (auto simp: index_rows_def split: if_splits)
  from assms lpa obtain am tgt pa where dq: "double_q T ag (next_states bt) nz = Inr (am, tgt, pa)"
    by (auto simp: learn_def Let_def split: sum.splits)
  from assms lpa dq obtain m where pr: "project ag (returns bt) (nonterminals bt) pa = Inr m"
    by (auto simp: learn_def Let_def split: sum.splits)
  from assms lpa dq pr have guard: "(\<forall>lp \<in> set lpa. length lp = atoms ag) \<and>
      length (weights bt) = batch_size ag"
    by (auto simp: learn_def Let_def split: if_splits)
  define step where "step = optimiser_step T (optimiser ag) (params (online_net ag))
      (clip_grad_norm T (backward T (objective T ag bt m) (params (online_net ag))) (norm_clip ag))"
  from assms lpa dq pr guard have tr: "tr =
      \<lparr> learn_agent =
          ag\<lparr>online_net := (online_net ag)\<lparr>params := snd step\<rparr>,
             target_net := tgt, optimiser := fst step\<rparr>,
        learn_update_priorities = [(idxs bt, cross_entropy m lpa)],
        learn_argmax_indices_ns = am,
        learn_pns_a = pa,
        learn_m = m,
        learn_loss = cross_entropy m lpa,
        learn_objective = objective T ag bt m (params (online_net ag)) \<rparr>"
    by (auto simp: learn_def Let_def step_def split: prod.splits)
  show thesis
  proof (rule that [of am tgt m])
    show "index_rows (batch_size ag) ?lp (actions bt) = Inr (gather (batch_size ag) ?lp (actions bt))"
      using lpa lpa_eq by simp
    show "double_q T ag (next_states bt) nz = Inr (am, tgt, learn_pns_a tr)"
      using dq tr by (simp add: step_def)
    show "project ag (returns bt) (nonterminals bt) (learn_pns_a tr) = Inr m"
      using pr tr by (simp add: step_def)
    show "\<forall>lp \<in> set (gather (batch_size ag) ?lp (actions bt)). length lp = atoms ag"
      using guard lpa_eq by simp
    show "length (weights bt) = batch_size ag" using guard by simp
    show "learn_argmax_indices_ns tr = am" using tr by (simp add: step_def)
    show "learn_m tr = m" using tr by (simp add: step_def)
    show "learn_loss tr = cross_entropy m (gather (batch_size ag) ?lp (actions bt))"
      using tr lpa_eq by (simp add: step_def)
    show "learn_update_priorities tr = [(idxs bt, learn_loss tr)]"
      using tr by (simp add: step_def)
    show "learn_objective tr = objective T ag bt m (params (online_net ag))"
      using tr by (simp add: step_def)
    show "learn_agent tr =
       ag\<lparr>online_net := (online_net ag)\<lparr>params :=
              snd (optimiser_step T (optimiser ag) (params (online_net ag))
                (clip_grad_norm T (backward T (objective T ag bt m) (params (online_net ag)))
                   (norm_clip ag)))\<rparr>,
          target_net := tgt,
          optimiser :=
              fst (optimiser_step T (optimiser ag) (params (online_net ag))
                (clip_grad_norm T (backward T (objective T ag bt m) (params (online_net ag)))
                   (norm_clip ag)))\<rparr>"
      using tr by (simp add: step_def)
  qed
qed

lemma length_gather [simp]: "length (gather bsz t idx) = bsz"
  by (simp add: gather_def)

lemma nth_gather [simp]: "k < bsz \<Longrightarrow> gather bsz t idx ! k = t ! k ! (idx ! k)"
  by (simp add: gather_def)

lemma cross_entropy_nth:
  assumes "k < length m" "length m = length lpa" "length (m ! k) = n" "length (lpa ! k) = n"
  shows "cross_entropy m lpa ! k = - (\<Sum>i < n. m ! k ! i * lpa ! k ! i)"
  using assms sum_list_map2_mult [of "m ! k" "lpa ! k"]
  by (simp add: cross_entropy_def)

lemma length_cross_entropy: "length m = length lpa \<Longrightarrow> length (cross_entropy m lpa) = length m"
  by (simp add: cross_entropy_def)

lemma tensor_mean_weighted:
  assumes "length w = n" "length loss = n"
  shows "tensor_mean (map2 (*) w loss) = (\<Sum>k < n. w ! k * loss ! k) / real n"
  using assms sum_list_map2_mult [of w loss] by (simp add: tensor_mean_def)

section \<open>Double-Q selection in learn\<close>

text \<open>
  C3. In a call of \<^verbatim>\<open>learn\<close> that returns, for every row \<open>k\<close> of the batch: the chosen
  action \<open>argmax_indices_ns[k]\<close> is an action of the online estimator's next-state
  distribution whose expected value \<open>sum_i support[i] * pns[k, a, i]\<close> is largest;
  \<open>pns_a[k]\<close> is the distribution of the target estimator at exactly that action,
  where the target estimator ran its forward pass with the noise resampled just
  before; that estimator is the agent's target estimator afterwards; and the projected
  target \<open>m\<close> is the projection of this \<open>pns_a\<close>.
\<close>

theorem learn_double_q_selection:
  fixes T :: "('s, 'nz, 'o) torch"
  defines "q \<equiv> (\<lambda>z (acts :: real list list) a. \<Sum>i < length z. z ! i * acts ! a ! i)"
  assumes "learn T ag bt nz = Inr tr" and "k < batch_size ag"
  shows "learn_argmax_indices_ns tr ! k
           < length (forward T (online_net ag) (next_states bt) False ! k) \<and>
         (\<forall>a < length (forward T (online_net ag) (next_states bt) False ! k).
            q (support ag) (forward T (online_net ag) (next_states bt) False ! k) a
            \<le> q (support ag) (forward T (online_net ag) (next_states bt) False ! k)
                 (learn_argmax_indices_ns tr ! k)) \<and>
         learn_pns_a tr ! k =
           forward T (net_reset_noise (target_net ag) nz) (next_states bt) False
             ! k ! (learn_argmax_indices_ns tr ! k) \<and>
         target_net (learn_agent tr) = net_reset_noise (target_net ag) nz \<and>
         project ag (returns bt) (nonterminals bt) (learn_pns_a tr) = Inr (learn_m tr)"
proof -
  let ?pns = "forward T (online_net ag) (next_states bt) False"
  from assms(2) obtain am tgt m where
    dq: "double_q T ag (next_states bt) nz = Inr (am, tgt, learn_pns_a tr)"
    and pr: "project ag (returns bt) (nonterminals bt) (learn_pns_a tr) = Inr m"
    and tr: "learn_argmax_indices_ns tr = am" "learn_m tr = m"
    and agent: "target_net (learn_agent tr) = tgt"
    by (rule learn_Inr) simp
  note d = double_q_Inr [OF dq]
  have kin: "?pns ! k \<in> set ?pns" using d(3) assms(3) by simp
  have am: "am ! k < length (expected_values (support ag) (?pns ! k))"
    "\<forall>a < length (expected_values (support ag) (?pns ! k)).
       expected_values (support ag) (?pns ! k) ! a
       \<le> expected_values (support ag) (?pns ! k) ! (am ! k)"
    using argmax_Inr [of "expected_values (support ag) (?pns ! k)" "am ! k"] d(5) assms(3)
    by simp_all
  have ev: "\<And>a. a < length (?pns ! k) \<Longrightarrow>
      expected_values (support ag) (?pns ! k) ! a = q (support ag) (?pns ! k) a"
  proof -
    fix a assume a: "a < length (?pns ! k)"
    then have "length (?pns ! k ! a) = length (support ag)" using d(6) kin by simp
    then show "expected_values (support ag) (?pns ! k) ! a = q (support ag) (?pns ! k) a"
      using a sum_list_map2_mult [of "support ag" "?pns ! k ! a"]
      by (simp add: expected_values_def q_def)
  qed
  have len: "length (expected_values (support ag) (?pns ! k)) = length (?pns ! k)"
    by (simp add: expected_values_def)
  have "am ! k < length (?pns ! k)" using am(1) len by simp
  moreover have "\<forall>a < length (?pns ! k).
      q (support ag) (?pns ! k) a \<le> q (support ag) (?pns ! k) (am ! k)"
    using am ev len by simp
  moreover have "learn_pns_a tr ! k =
      forward T (net_reset_noise (target_net ag) nz) (next_states bt) False ! k ! (am ! k)"
    using d(1,4) assms(3) by simp
  ultimately show ?thesis using tr agent d(1) pr by simp
qed

section \<open>The loss and the backpropagated objective\<close>

text \<open>
  C4. In a call of \<^verbatim>\<open>learn\<close> that returns, on a non-empty batch: the loss of sample \<open>k\<close> is
  \<open>- sum_i m[k, i] * log_ps[k, actions[k], i]\<close>, with the online estimator's
  log-probabilities at the taken action; the scalar that \<^verbatim>\<open>backward\<close> is called on is
  the mean over the batch of \<open>weights[k] * loss[k]\<close>; and the online parameters after
  the call are those of one optimiser step on the clipped gradient of that objective.
\<close>

theorem learn_loss_is_weighted_cross_entropy:
  assumes "learn T ag bt nz = Inr tr" and "0 < batch_size ag"
  shows "(\<forall>k < batch_size ag.
            learn_loss tr ! k =
              - (\<Sum>i < atoms ag. learn_m tr ! k ! i *
                    forward T (online_net ag) (states bt) True ! k ! (actions bt ! k) ! i)) \<and>
         learn_objective tr =
           (\<Sum>k < batch_size ag. weights bt ! k * learn_loss tr ! k) / real (batch_size ag) \<and>
         learn_objective tr = objective T ag bt (learn_m tr) (params (online_net ag)) \<and>
         params (online_net (learn_agent tr)) =
           snd (optimiser_step T (optimiser ag) (params (online_net ag))
                 (clip_grad_norm T
                    (backward T (objective T ag bt (learn_m tr)) (params (online_net ag)))
                    (norm_clip ag)))"
proof -
  let ?lpa = "gather (batch_size ag) (forward T (online_net ag) (states bt) True) (actions bt)"
  from assms(1) obtain m where
    pr: "project ag (returns bt) (nonterminals bt) (learn_pns_a tr) = Inr m"
    and shape: "\<forall>lp \<in> set ?lpa. length lp = atoms ag" "length (weights bt) = batch_size ag"
    and tr: "learn_m tr = m" "learn_loss tr = cross_entropy m ?lpa"
      "learn_objective tr = objective T ag bt m (params (online_net ag))"
    and agent: "learn_agent tr =
       ag\<lparr>online_net := (online_net ag)\<lparr>params :=
              snd (optimiser_step T (optimiser ag) (params (online_net ag))
                (clip_grad_norm T (backward T (objective T ag bt m) (params (online_net ag)))
                   (norm_clip ag)))\<rparr>,
          target_net := net_reset_noise (target_net ag) nz,
          optimiser :=
              fst (optimiser_step T (optimiser ag) (params (online_net ag))
                (clip_grad_norm T (backward T (objective T ag bt m) (params (online_net ag)))
                   (norm_clip ag)))\<rparr>"
    by (rule learn_Inr) (simp add: double_q_Inr(1))
  note ms = project_Inr_shape [OF pr]
  have loss: "\<forall>k < batch_size ag. learn_loss tr ! k =
      - (\<Sum>i < atoms ag. m ! k ! i *
            forward T (online_net ag) (states bt) True ! k ! (actions bt ! k) ! i)"
  proof (intro allI impI)
    fix k assume k: "k < batch_size ag"
    then have "?lpa ! k \<in> set ?lpa" by (simp del: nth_gather)
    then have "length (?lpa ! k) = atoms ag" using shape(1) by blast
    from cross_entropy_nth [of k m ?lpa "atoms ag", OF _ _ _ this] ms k tr(2)
    show "learn_loss tr ! k =
      - (\<Sum>i < atoms ag. m ! k ! i *
            forward T (online_net ag) (states bt) True ! k ! (actions bt ! k) ! i)"
      by simp
  qed
  have ll: "length (learn_loss tr) = batch_size ag"
    using tr(2) ms(1) by (simp add: length_cross_entropy)
  have "objective T ag bt m (params (online_net ag)) =
        tensor_mean (map2 (*) (weights bt) (learn_loss tr))"
    by (simp add: objective_def tr(2))
  also have "\<dots> = (\<Sum>k < batch_size ag. weights bt ! k * learn_loss tr ! k) / real (batch_size ag)"
    by (rule tensor_mean_weighted [OF shape(2) ll])
  finally have obj: "learn_objective tr =
      (\<Sum>k < batch_size ag. weights bt ! k * learn_loss tr ! k) / real (batch_size ag)"
    using tr(3) by simp
  show ?thesis using loss obj tr agent by simp
qed

section \<open>The example run\<close>

lemma learn_example_value:
  "learn example_torch (example_agent 3 (-1) 1 1) example_batch () = Inr example_learned"
  by (simp add: learn_def double_q_def index_rows_def gather_def example_torch_def
      example_forward_def example_agent_def example_net_def example_batch_def
      example_learned_def objective_def cross_entropy_def tensor_mean_def
      net_reset_noise_def argmax_def expected_values_def
      project_def linspace_def row_bs_def b_coord_def Tz_def
      clamp_def contributions_def lower_row_def upper_row_def l_fix_def u_fix_def
      view_rows_def upt_rec numeral_eq_Suc Let_def)

theorem learn_double_q_selection_witness:
  "learn example_torch (example_agent 3 (-1) 1 1) example_batch () = Inr example_learned \<and>
   forward example_torch (online_net (example_agent 3 (-1) 1 1)) (next_states example_batch) False
     = [[[0, 0, 1], [1, 0, 0]]] \<and>
   forward example_torch (net_reset_noise (target_net (example_agent 3 (-1) 1 1)) ())
       (next_states example_batch) False
     = [[[1 / 5, 1 / 2, 3 / 10], [3 / 5, 3 / 10, 1 / 10]]] \<and>
   learn_argmax_indices_ns example_learned ! 0 = 0 \<and>
   learn_pns_a example_learned ! 0 = [1 / 5, 1 / 2, 3 / 10]"
proof -
  let ?ag = "example_agent 3 (-1) 1 1"
  have k: "0 < batch_size ?ag" by (simp add: example_agent_def)
  have on: "forward example_torch (online_net ?ag) (next_states example_batch) False
     = [[[0, 0, 1], [1, 0, 0]]]"
    by (simp add: example_torch_def example_forward_def example_agent_def example_net_def
        example_batch_def)
  have tg: "forward example_torch (net_reset_noise (target_net ?ag) ())
       (next_states example_batch) False
     = [[[1 / 5, 1 / 2, 3 / 10], [3 / 5, 3 / 10, 1 / 10]]]"
    by (simp add: example_torch_def example_forward_def example_agent_def example_net_def
        example_batch_def net_reset_noise_def)
  have sup: "support ?ag = [-1, 0, 1]"
    by (simp add: example_agent_def linspace_def upt_rec numeral_eq_Suc)
  note c = learn_double_q_selection [OF learn_example_value k]
  note c1 = c [THEN conjunct1, unfolded on]
  note c2 = c [THEN conjunct2, THEN conjunct1, rule_format, of 0, unfolded on sup]
  note c3 = c [THEN conjunct2, THEN conjunct2, THEN conjunct1, unfolded tg]
  let ?a = "learn_argmax_indices_ns example_learned ! 0"
  from c1 have a2: "?a = 0 \<or> ?a = 1" by auto
  have a0: "?a = 0"
  proof (rule ccontr)
    assume "?a \<noteq> 0"
    with a2 have "?a = 1" by simp
    with c2 show False by (simp add: lessThan_nat_numeral lessThan_Suc)
  qed
  from c3 a0 have "learn_pns_a example_learned ! 0 = [1 / 5, 1 / 2, 3 / 10]" by simp
  with a0 on tg learn_example_value show ?thesis by simp
qed

theorem learn_loss_is_weighted_cross_entropy_witness:
  "learn example_torch (example_agent 3 (-1) 1 1) example_batch () = Inr example_learned \<and>
   0 < batch_size (example_agent 3 (-1) 1 1) \<and>
   learn_loss example_learned ! 0
     = - (1 / 25 * 0 + 57 / 100 * (-1) + 39 / 100 * (-1)) \<and>
   learn_objective example_learned = 2 * (24 / 25) / 1"
proof -
  let ?ag = "example_agent 3 (-1) 1 1"
  have k: "0 < batch_size ?ag" by (simp add: example_agent_def)
  have a: "atoms ?ag = 3" "batch_size ?ag = 1" by (simp_all add: example_agent_def)
  have lp: "forward example_torch (online_net ?ag) (states example_batch) True
     = [[[-1, -1, 0], [0, -1, -1]]]"
    by (simp add: example_torch_def example_forward_def example_agent_def example_net_def
        example_batch_def)
  have bt: "actions example_batch = [1]" "weights example_batch = [2]"
    by (simp_all add: example_batch_def)
  have m: "learn_m example_learned = [[1 / 25, 57 / 100, 39 / 100]]"
    by (simp add: example_learned_def)
  note c = learn_loss_is_weighted_cross_entropy [OF learn_example_value k, unfolded a lp bt m]
  from c have l: "learn_loss example_learned ! 0
     = - (1 / 25 * 0 + 57 / 100 * (-1) + 39 / 100 * (-1))"
    by (simp add: lessThan_nat_numeral lessThan_Suc)
  from c have "learn_objective example_learned
     = (\<Sum>k < 1. [2] ! k * learn_loss example_learned ! k) / real 1" by simp
  with l have "learn_objective example_learned = 2 * (24 / 25) / 1" by simp
  with l k learn_example_value show ?thesis by simp
qed

section \<open>Sign of the loss\<close>

lemma cross_entropy_nonneg:
  assumes "length m = length lpa"
    and "\<forall>row \<in> set m. \<forall>x \<in> set row. 0 \<le> x"
    and "\<forall>lp \<in> set lpa. \<forall>x \<in> set lp. x \<le> 0"
  shows "\<forall>v \<in> set (cross_entropy m lpa). 0 \<le> v"
proof -
  have row: "\<And>mr lr :: real list. \<forall>x \<in> set mr. 0 \<le> x \<Longrightarrow> \<forall>x \<in> set lr. x \<le> 0 \<Longrightarrow>
      sum_list (map2 (*) mr lr) \<le> 0"
  proof -
    fix mr lr :: "real list"
    assume "\<forall>x \<in> set mr. 0 \<le> x" "\<forall>x \<in> set lr. x \<le> 0"
    then have "\<forall>t \<in> set (map2 (*) mr lr). t \<le> 0"
      by (auto simp: mult_nonneg_nonpos dest!: set_zip_leftD set_zip_rightD
          elim!: in_set_zipE)
    then show "sum_list (map2 (*) mr lr) \<le> 0" by (intro sum_list_nonpos) blast
  qed
  show ?thesis
    using assms(2,3) row
    by (auto simp: cross_entropy_def elim!: in_set_zipE)
qed

section \<open>The target estimator's parameters\<close>

text \<open>
  C7. A call of \<^verbatim>\<open>learn\<close> that returns leaves every parameter of the target estimator
  as it was, and its gradient flag too: the optimiser step writes the online
  parameters only, and the one thing \<^verbatim>\<open>learn\<close> changes in the target estimator is its
  noise. Neither do \<^verbatim>\<open>reset_noise\<close>, \<^verbatim>\<open>train\<close> and \<^verbatim>\<open>eval\<close> change them; of the
  agent's operations only \<^verbatim>\<open>update_target_net\<close> writes them.
\<close>

theorem learn_keeps_target_parameters:
  assumes "learn T ag bt nz = Inr tr"
  shows "params (target_net (learn_agent tr)) = params (target_net ag) \<and>
         requires_grad (target_net (learn_agent tr)) = requires_grad (target_net ag) \<and>
         params (target_net (reset_noise ag nz')) = params (target_net ag) \<and>
         params (target_net (agent_train ag)) = params (target_net ag) \<and>
         params (target_net (agent_eval ag)) = params (target_net ag)"
proof -
  from assms obtain am tgt where
    dq: "double_q T ag (next_states bt) nz = Inr (am, tgt, learn_pns_a tr)"
    and agent: "target_net (learn_agent tr) = tgt"
    by (rule learn_Inr) simp
  from double_q_Inr(1) [OF dq] agent
  have "target_net (learn_agent tr) = net_reset_noise (target_net ag) nz" by simp
  then show ?thesis
    by (simp add: net_reset_noise_def reset_noise_def agent_train_def agent_eval_def)
qed

theorem learn_keeps_target_parameters_witness:
  "learn example_torch (example_agent 3 (-1) 1 1) example_batch () = Inr example_learned \<and>
   params (target_net (learn_agent example_learned))
     = [(''dist'', [1 / 5, 1 / 2, 3 / 10, 3 / 5, 3 / 10, 1 / 10])]"
proof -
  from learn_keeps_target_parameters [OF learn_example_value]
  have "params (target_net (learn_agent example_learned))
      = params (target_net (example_agent 3 (-1) 1 1))" by simp
  then show ?thesis
    using learn_example_value by (simp add: example_agent_def example_net_def)
qed

section \<open>Priority feedback\<close>

text \<open>
  C10. A call of \<^verbatim>\<open>learn\<close> that returns has called \<^verbatim>\<open>mem.update_priorities\<close> exactly
  once, with the sample identifiers of the batch and the per-sample losses: one
  value per sample, the cross-entropy of that sample (not the batch mean). When the
  projected target \<open>m\<close> is non-negative and the online log-probabilities at the taken
  actions are at most zero, every reported value is non-negative. The reported values
  do not depend on the importance weights: the same batch with other weights reports
  the same values.
\<close>

theorem learn_reports_per_sample_loss:
  assumes "learn T ag bt nz = Inr tr"
  shows "learn_update_priorities tr
           = [(idxs bt, cross_entropy (learn_m tr)
                 (gather (batch_size ag) (forward T (online_net ag) (states bt) True)
                    (actions bt)))] \<and>
         (\<forall>(ids, vals) \<in> set (learn_update_priorities tr).
            length vals = batch_size ag \<and> vals = learn_loss tr) \<and>
         ((\<forall>row \<in> set (learn_m tr). \<forall>x \<in> set row. 0 \<le> x) \<and>
          (\<forall>k < batch_size ag.
             \<forall>x \<in> set (forward T (online_net ag) (states bt) True ! k ! (actions bt ! k)).
               x \<le> 0) \<longrightarrow>
          (\<forall>(ids, vals) \<in> set (learn_update_priorities tr). \<forall>v \<in> set vals. 0 \<le> v)) \<and>
         (\<forall>w tr'. learn T ag (bt\<lparr>weights := w\<rparr>) nz = Inr tr' \<longrightarrow>
            learn_update_priorities tr' = learn_update_priorities tr)"
proof -
  let ?lpa = "gather (batch_size ag) (forward T (online_net ag) (states bt) True) (actions bt)"
  from assms obtain am tgt m where
    dq: "double_q T ag (next_states bt) nz = Inr (am, tgt, learn_pns_a tr)"
    and pr: "project ag (returns bt) (nonterminals bt) (learn_pns_a tr) = Inr m"
    and tr: "learn_m tr = m" "learn_loss tr = cross_entropy m ?lpa"
      "learn_update_priorities tr = [(idxs bt, learn_loss tr)]"
    by (rule learn_Inr) simp
  have len: "length m = length ?lpa" using project_Inr_shape(1) [OF pr] by simp
  have one: "learn_update_priorities tr = [(idxs bt, cross_entropy (learn_m tr) ?lpa)]"
    using tr by simp
  have per: "\<forall>(ids, vals) \<in> set (learn_update_priorities tr).
      length vals = batch_size ag \<and> vals = learn_loss tr"
    using tr len by (simp add: length_cross_entropy)
  have nonneg: "(\<forall>row \<in> set (learn_m tr). \<forall>x \<in> set row. 0 \<le> x) \<and>
      (\<forall>k < batch_size ag.
         \<forall>x \<in> set (forward T (online_net ag) (states bt) True ! k ! (actions bt ! k)). x \<le> 0)
      \<longrightarrow> (\<forall>(ids, vals) \<in> set (learn_update_priorities tr). \<forall>v \<in> set vals. 0 \<le> v)"
  proof
    assume h: "(\<forall>row \<in> set (learn_m tr). \<forall>x \<in> set row. 0 \<le> x) \<and>
      (\<forall>k < batch_size ag.
         \<forall>x \<in> set (forward T (online_net ag) (states bt) True ! k ! (actions bt ! k)). x \<le> 0)"
    then have "\<forall>lp \<in> set ?lpa. \<forall>x \<in> set lp. x \<le> 0"
      by (auto simp: gather_def)
    from cross_entropy_nonneg [OF len _ this] h tr
    show "\<forall>(ids, vals) \<in> set (learn_update_priorities tr). \<forall>v \<in> set vals. 0 \<le> v"
      by simp
  qed
  have indep: "\<forall>w tr'. learn T ag (bt\<lparr>weights := w\<rparr>) nz = Inr tr' \<longrightarrow>
      learn_update_priorities tr' = learn_update_priorities tr"
  proof (intro allI impI)
    fix w tr' assume l': "learn T ag (bt\<lparr>weights := w\<rparr>) nz = Inr tr'"
    from l' obtain am' tgt' m' where
      dq': "double_q T ag (next_states bt) nz = Inr (am', tgt', learn_pns_a tr')"
      and pr': "project ag (returns bt) (nonterminals bt) (learn_pns_a tr') = Inr m'"
      and tr': "learn_loss tr' = cross_entropy m' ?lpa"
        "learn_update_priorities tr' = [(idxs bt, learn_loss tr')]"
      by (rule learn_Inr) simp
    from dq dq' have "learn_pns_a tr' = learn_pns_a tr" by simp
    with pr pr' have "m' = m" by simp
    with tr tr' show "learn_update_priorities tr' = learn_update_priorities tr" by simp
  qed
  from one per nonneg indep show ?thesis by blast
qed

theorem learn_reports_per_sample_loss_witness:
  "learn example_torch (example_agent 3 (-1) 1 1) example_batch () = Inr example_learned \<and>
   learn example_torch (example_agent 3 (-1) 1 1) (example_batch\<lparr>weights := [5]\<rparr>) ()
     = Inr (example_learned\<lparr>learn_objective := 24 / 5\<rparr>) \<and>
   list_all (list_all (\<lambda>x. 0 \<le> x)) (learn_m example_learned) \<and>
   list_all (\<lambda>x. x \<le> 0)
     (forward example_torch (online_net (example_agent 3 (-1) 1 1))
        (states example_batch) True ! 0 ! (actions example_batch ! 0)) \<and>
   learn_update_priorities example_learned = [([7], [24 / 25])] \<and>
   learn_update_priorities (example_learned\<lparr>learn_objective := 24 / 5\<rparr>) = [([7], [24 / 25])] \<and>
   list_all (\<lambda>(ids, vals). list_all (\<lambda>v. 0 \<le> v) vals) (learn_update_priorities example_learned)"
proof -
  let ?ag = "example_agent 3 (-1) 1 1"
  have w5: "learn example_torch ?ag (example_batch\<lparr>weights := [5]\<rparr>) ()
     = Inr (example_learned\<lparr>learn_objective := 24 / 5\<rparr>)"
    by (simp add: learn_def double_q_def index_rows_def gather_def example_torch_def
      example_forward_def example_agent_def example_net_def example_batch_def
      example_learned_def objective_def cross_entropy_def tensor_mean_def
      net_reset_noise_def argmax_def expected_values_def
      project_def linspace_def row_bs_def b_coord_def Tz_def
      clamp_def contributions_def lower_row_def upper_row_def l_fix_def u_fix_def
      view_rows_def upt_rec numeral_eq_Suc Let_def)
  have m: "\<forall>row \<in> set (learn_m example_learned). \<forall>x \<in> set row. 0 \<le> x"
    by (simp add: example_learned_def)
  have lp: "\<forall>k < batch_size ?ag.
      \<forall>x \<in> set (forward example_torch (online_net ?ag)
                   (states example_batch) True ! k ! (actions example_batch ! k)). x \<le> 0"
    by (simp add: example_torch_def example_forward_def example_agent_def example_net_def
        example_batch_def)
  have bs: "0 < batch_size ?ag" by (simp add: example_agent_def)
  note c = learn_reports_per_sample_loss [OF learn_example_value]
  from c m lp have nn: "\<forall>(ids, vals) \<in> set (learn_update_priorities example_learned).
      \<forall>v \<in> set vals. 0 \<le> v" by blast
  from c w5 have same: "learn_update_priorities (example_learned\<lparr>learn_objective := 24 / 5\<rparr>)
      = learn_update_priorities example_learned" by blast
  have val: "learn_update_priorities example_learned = [([7], [24 / 25])]"
    by (simp add: example_learned_def)
  have m': "list_all (list_all (\<lambda>x. 0 \<le> x)) (learn_m example_learned)"
    using m by (simp add: list_all_iff)
  have lp': "list_all (\<lambda>x. x \<le> 0)
     (forward example_torch (online_net ?ag) (states example_batch) True ! 0
        ! (actions example_batch ! 0))"
    using lp bs by (simp add: list_all_iff)
  have nn': "list_all (\<lambda>(ids, vals). list_all (\<lambda>v. 0 \<le> v) vals)
      (learn_update_priorities example_learned)"
    using nn by (simp add: list_all_iff)
  from learn_example_value w5 m' lp' nn' same val show ?thesis by simp
qed

end
